theory Spec2Isabelle
  imports Complex_Main "HOL-Library.Word"
begin

section \<open>Common modelling conventions\<close>

text \<open>
  The program is \<^verbatim>\<open>SyntheticFlatGUI.py\<close>. Its numerical functions are embedded as HOL
  functions.

  \<^item> Python integers are \<^typ>\<open>int\<close> (or \<^typ>\<open>nat\<close> for loop counters of \<^verbatim>\<open>range\<close>).
  \<^item> Python and numpy floats are idealised: rounding is not modelled.  In the statistics
    of the radial profile and in the histogram a float is a \<^typ>\<open>real\<close>, and where the
    program handles \<^verbatim>\<open>nan\<close> there (the \<^verbatim>\<open>isnan\<close> filter of the radial profile, the \<^verbatim>\<open>np.nan\<close>
    mask of the histogram) a \<^typ>\<open>real option\<close> with \<open>None\<close> for \<^verbatim>\<open>nan\<close>.  Where the program goes
    on computing with \<^verbatim>\<open>nan\<close> and \<^verbatim>\<open>inf\<close> (the normalisations, the gradient correction, the
    synthetic flat) a float is a \<open>float64\<close>: a real, an infinity or \<^verbatim>\<open>nan\<close>.
  \<^item> An exception is a value \<open>Inl e\<close> of the sum type \<open>py_error + 'a\<close>.
  \<^item> A numpy array is its shape together with its items; an item access checks the
    index against the shape as numpy does.
\<close>

datatype py_error = IndexError | KeyError | ValueError | ZeroDivisionError

definition pbind :: "py_error + 'a \<Rightarrow> ('a \<Rightarrow> py_error + 'b) \<Rightarrow> py_error + 'b" where
  "pbind m f = (case m of Inl e \<Rightarrow> Inl e | Inr x \<Rightarrow> f x)"

text \<open>A \<^verbatim>\<open>for x in xs:\<close> loop whose body may raise.\<close>

fun for_each :: "('a \<Rightarrow> 's \<Rightarrow> py_error + 's) \<Rightarrow> 'a list \<Rightarrow> 's \<Rightarrow> py_error + 's" where
  "for_each body [] s = Inr s"
| "for_each body (x # xs) s = pbind (body x s) (for_each body xs)"

text \<open>An \<^verbatim>\<open>if b:\<close> statement without \<^verbatim>\<open>else\<close>.\<close>

definition when_do :: "bool \<Rightarrow> ('s \<Rightarrow> py_error + 's) \<Rightarrow> 's \<Rightarrow> py_error + 's" where
  "when_do b body s = (if b then body s else Inr s)"

text \<open>\<^verbatim>\<open>int(x)\<close> on a float truncates towards zero.\<close>

definition py_int :: "real \<Rightarrow> int" where
  "py_int x = (if 0 \<le> x then \<lfloor>x\<rfloor> else \<lceil>x\<rceil>)"

subsection \<open>Arrays\<close>

record 'a ndarray =
  shape :: "nat list"
  item :: "nat list \<Rightarrow> 'a"

definition np_zeros :: "nat list \<Rightarrow> real ndarray" where
  "np_zeros shp = \<lparr>shape = shp, item = (\<lambda>_. 0)\<rparr>"

text \<open>One index against one axis length: a negative index counts from the end.\<close>

definition np_index :: "nat \<Rightarrow> int \<Rightarrow> py_error + nat" where
  "np_index n i =
     (if 0 \<le> i \<and> i < int n then Inr (nat i)
      else if - int n \<le> i \<and> i < 0 then Inr (nat (int n + i))
      else Inl IndexError)"

fun resolve_index :: "nat list \<Rightarrow> int list \<Rightarrow> py_error + nat list" where
  "resolve_index [] [] = Inr []"
| "resolve_index (n # ns) (i # js) =
     pbind (np_index n i) (\<lambda>a. pbind (resolve_index ns js) (\<lambda>as. Inr (a # as)))"
| "resolve_index _ _ = Inl IndexError"

definition getitem :: "'a ndarray \<Rightarrow> int list \<Rightarrow> py_error + 'a" where
  "getitem a idx = pbind (resolve_index (shape a) idx) (\<lambda>k. Inr (item a k))"

definition setitem :: "'a ndarray \<Rightarrow> int list \<Rightarrow> 'a \<Rightarrow> py_error + 'a ndarray" where
  "setitem a idx v = pbind (resolve_index (shape a) idx) (\<lambda>k. Inr (a\<lparr>item := (item a)(k := v)\<rparr>))"

text \<open>\<^verbatim>\<open>np.array(rows)\<close> of a rectangular list of rows, and \<^verbatim>\<open>a.tolist()\<close> of a 2-D array.\<close>

definition np_array2 :: "'a list list \<Rightarrow> 'a ndarray" where
  "np_array2 rows =
     \<lparr>shape = [length rows, length (hd rows)],
      item = (\<lambda>k. rows ! (k ! 0) ! (k ! 1))\<rparr>"

definition tolist2 :: "'a ndarray \<Rightarrow> 'a list list" where
  "tolist2 a = map (\<lambda>i. map (\<lambda>j. item a [i, j]) [0..<shape a ! 1]) [0..<shape a ! 0]"

section \<open>Static settings\<close>

definition IGNORE_EDGE :: nat where "IGNORE_EDGE = 10"
definition IGNORE_RADII :: nat where "IGNORE_RADII = 5"
definition RADIAL_RESOLUTION :: nat where "RADIAL_RESOLUTION = 100000"

section \<open>Distance from the image centre\<close>

text \<open>
  \<^verbatim>\<open>cached_dist\<close> is memoised with \<^verbatim>\<open>lru_cache\<close>; the cache does not change what it returns.
\<close>

definition cached_dist :: "int \<Rightarrow> int \<Rightarrow> real" where
  "cached_dist dx dy = sqrt (real_of_int dx ^ 2 + real_of_int dy ^ 2)"

definition dist_from_center :: "int \<Rightarrow> int \<Rightarrow> int \<Rightarrow> int \<Rightarrow> real" where
  "dist_from_center i j height width =
     (let dx = py_int \<bar>real_of_int i - real_of_int height / 2\<bar>;
          dy = py_int \<bar>real_of_int j - real_of_int width / 2\<bar>;
          s = sort [dx, dy]
      in cached_dist (s ! 0) (s ! 1))"

section \<open>Statistics\<close>

text \<open>
  \<^verbatim>\<open>scipy.stats.sigmaclip\<close> and Python's \<^verbatim>\<open>float(str)\<close> are library code outside the
  repository.  Functions that call them take them as the parameters \<open>sigmaclip\<close>
  (the clipped sample, given the sample and the low and high factors) and \<open>py_float\<close>
  (\<open>None\<close> when \<^verbatim>\<open>float\<close> raises \<^verbatim>\<open>ValueError\<close>).
\<close>

type_synonym sigmaclip_fn = "real list \<Rightarrow> real \<Rightarrow> real \<Rightarrow> real list"
type_synonym float_fn = "string \<Rightarrow> real option"

text \<open>\<^verbatim>\<open>np.mean\<close> and \<^verbatim>\<open>np.median\<close> give \<^verbatim>\<open>nan\<close> on an empty sample, \<^verbatim>\<open>np.min\<close> and \<^verbatim>\<open>np.max\<close> raise.\<close>

definition np_mean :: "real list \<Rightarrow> real option" where
  "np_mean xs = (if xs = [] then None else Some (sum_list xs / real (length xs)))"

definition np_median :: "real list \<Rightarrow> real option" where
  "np_median xs =
     (let s = sort xs; n = length xs
      in if n = 0 then None
         else if n mod 2 = 1 then Some (s ! (n div 2))
         else Some ((s ! (n div 2 - 1) + s ! (n div 2)) / 2))"

definition np_min :: "real list \<Rightarrow> py_error + real" where
  "np_min xs = (if xs = [] then Inl ValueError else Inr (Min (set xs)))"

definition np_max :: "real list \<Rightarrow> py_error + real" where
  "np_max xs = (if xs = [] then Inl ValueError else Inr (Max (set xs)))"

definition is_space :: "char \<Rightarrow> bool" where
  "is_space c = (c \<in> set [CHR '' '', CHR 0x09, CHR 0x0A, CHR 0x0B, CHR 0x0C, CHR 0x0D])"

definition strip :: "string \<Rightarrow> string" where
  "strip s = rev (dropWhile is_space (rev (dropWhile is_space s)))"

definition sigma_clip_mean :: "sigmaclip_fn \<Rightarrow> real list \<Rightarrow> real \<Rightarrow> real option" where
  "sigma_clip_mean sigmaclip array sigma_clip =
     (let reduced = sigmaclip array sigma_clip sigma_clip in np_mean reduced)"

definition apply_statistics ::
  "sigmaclip_fn \<Rightarrow> float_fn \<Rightarrow> real list \<Rightarrow> string \<Rightarrow> py_error + real option" where
  "apply_statistics sigmaclip py_float array statistics =
     (if take 10 statistics = ''sigma clip'' then
        (let number = strip (drop 10 statistics)
         in case py_float number of
              None \<Rightarrow> Inl ValueError
            | Some sigma_clip \<Rightarrow> Inr (sigma_clip_mean sigmaclip array sigma_clip))
      else if statistics = ''median'' then Inr (np_median array)
      else if statistics = ''min'' then pbind (np_min array) (\<lambda>r. Inr (Some r))
      else if statistics = ''max'' then pbind (np_max array) (\<lambda>r. Inr (Some r))
      else Inr (np_mean array))"

section \<open>Bayer mosaic\<close>

definition merge_green :: "real ndarray \<Rightarrow> py_error + real ndarray" where
  "merge_green img =
     (if length (shape img) \<noteq> 3 \<or> shape img ! 2 < 4 then Inl IndexError
      else Inr \<lparr>shape = [shape img ! 0, shape img ! 1, 3],
                item = (\<lambda>k. let i = k ! 0; j = k ! 1; c = k ! 2
                             in if c = 0 then item img [i, j, 0]
                                else if c = 1 then (item img [i, j, 1] + item img [i, j, 2]) / 2
                                else item img [i, j, 3])\<rparr>)"

definition debayer_site :: "real ndarray \<Rightarrow> nat \<Rightarrow> nat \<Rightarrow> real ndarray \<Rightarrow> py_error + real ndarray" where
  "debayer_site img n m db_image =
     pbind (when_do (n mod 2 = 0 \<and> m mod 2 = 0)
              (\<lambda>db. pbind (getitem img [int n, int m])
                 (setitem db [py_int ((real n + 0) / 2), py_int ((real m + 0) / 2), 0])) db_image)
    (\<lambda>db1. pbind (when_do (n mod 2 = 0 \<and> m mod 2 = 1)
              (\<lambda>db. pbind (getitem img [int n, int m])
                 (setitem db [py_int ((real n + 0) / 2), py_int ((real m - 1) / 2), 1])) db1)
    (\<lambda>db2. pbind (when_do (n mod 2 = 1 \<and> m mod 2 = 0)
              (\<lambda>db. pbind (getitem img [int n, int m])
                 (setitem db [py_int ((real n - 1) / 2), py_int ((real m + 0) / 2), 2])) db2)
    (\<lambda>db3. when_do (n mod 2 = 1 \<and> m mod 2 = 1)
              (\<lambda>db. pbind (getitem img [int n, int m])
                 (setitem db [py_int ((real n - 1) / 2), py_int ((real m - 1) / 2), 3])) db3)))"

definition debayer :: "real ndarray \<Rightarrow> bool \<Rightarrow> py_error + real ndarray" where
  "debayer img separate_green =
     (if length (shape img) < 2 then Inl IndexError
      else
        let rows = shape img ! 0;
            cols = shape img ! 1;
            db_image = np_zeros [nat (py_int (real rows / 2)), nat (py_int (real cols / 2)), 4]
        in pbind (for_each (\<lambda>n. for_each (\<lambda>m. debayer_site img n m) [0..<cols])
                    [0..<rows] db_image)
             (\<lambda>db. if \<not> separate_green then merge_green db else Inr db))"

definition bayer_site :: "real ndarray \<Rightarrow> nat \<Rightarrow> nat \<Rightarrow> nat \<Rightarrow> nat \<Rightarrow> real ndarray \<Rightarrow> py_error + real ndarray" where
  "bayer_site img colors i j c b_image =
     pbind (getitem img [int i, int j, int c]) (\<lambda>v.
       if c = 0 then setitem b_image [2 * int i + 0, 2 * int j + 0] v
       else if c = 1 then
         pbind (setitem b_image [2 * int i + 1, 2 * int j + 0] v)
           (when_do (colors = 3) (\<lambda>b. setitem b [2 * int i + 0, 2 * int j + 1] v))
       else if c = 3 then setitem b_image [2 * int i + 0, 2 * int j + 1] v
       else setitem b_image [2 * int i + 1, 2 * int j + 1] v)"

definition bayer :: "real ndarray \<Rightarrow> py_error + real ndarray" where
  "bayer img =
     (if length (shape img) < 3 then Inr img
      else
        let rows = shape img ! 0;
            cols = shape img ! 1;
            colors = shape img ! 2;
            b_image = np_zeros [rows * 2, cols * 2]
        in for_each (\<lambda>i. for_each (\<lambda>j. for_each (bayer_site img colors i j) [0..<colors])
                      [0..<cols]) [0..<rows] b_image)"

section \<open>Radial profile: acquiring the pixel values\<close>

text \<open>
  The first part of \<^verbatim>\<open>calc_rad_profile\<close>: the loop that bins the pixel values by their
  integer radius, the two profile tables built from the bins, the \<^verbatim>\<open>isnan\<close> filter and
  the safety check.  \<^verbatim>\<open>radii\<close> is the list of observed radii in the order of their first
  occurrence, \<^verbatim>\<open>rad_counts\<close> the dictionary from a radius to its three sample lists.
\<close>

record rad_state =
  radii :: "int list"
  rad_counts :: "int \<rightharpoonup> real list list"

text \<open>
  \<^verbatim>\<open>image[i, j, 0] > 0 and image[i, j, 1] > 0 and image[i, j, 2] > 0 and image[i, j, 3] > 0\<close>,
  evaluated from the left and only as far as needed.
\<close>

definition all_positive :: "real ndarray \<Rightarrow> nat \<Rightarrow> nat \<Rightarrow> py_error + bool" where
  "all_positive img i j =
     pbind (getitem img [int i, int j, 0]) (\<lambda>v0. if \<not> v0 > 0 then Inr False else
     pbind (getitem img [int i, int j, 1]) (\<lambda>v1. if \<not> v1 > 0 then Inr False else
     pbind (getitem img [int i, int j, 2]) (\<lambda>v2. if \<not> v2 > 0 then Inr False else
     pbind (getitem img [int i, int j, 3]) (\<lambda>v3. Inr (v3 > 0)))))"

text \<open>\<^verbatim>\<open>rad_counts[rad][b].append(image[i, j, c])\<close>\<close>

definition append_sample :: "real ndarray \<Rightarrow> nat \<Rightarrow> nat \<Rightarrow> int \<Rightarrow> nat \<Rightarrow> nat \<Rightarrow> rad_state \<Rightarrow> py_error + rad_state" where
  "append_sample img i j rad b c st =
     (case rad_counts st rad of
        None \<Rightarrow> Inl KeyError
      | Some bins \<Rightarrow>
          if \<not> b < length bins then Inl IndexError
          else pbind (getitem img [int i, int j, int c])
                 (\<lambda>v. Inr (st\<lparr>rad_counts := (rad_counts st)(rad \<mapsto> bins[b := bins ! b @ [v]])\<rparr>)))"

text \<open>The four \<^verbatim>\<open>append\<close> statements of one pixel: channels 1 and 2 both go to list 1.\<close>

definition append_pixel_samples :: "real ndarray \<Rightarrow> nat \<Rightarrow> nat \<Rightarrow> int \<Rightarrow> rad_state \<Rightarrow> py_error + rad_state" where
  "append_pixel_samples img i j rad st1 =
     pbind (append_sample img i j rad 0 0 st1) (\<lambda>st2.
     pbind (append_sample img i j rad 1 1 st2) (\<lambda>st3.
     pbind (append_sample img i j rad 1 2 st3) (\<lambda>st4.
     append_sample img i j rad 2 3 st4)))"

definition acquire_pixel :: "real ndarray \<Rightarrow> nat \<Rightarrow> nat \<Rightarrow> nat \<Rightarrow> nat \<Rightarrow> nat \<Rightarrow> rad_state \<Rightarrow> py_error + rad_state" where
  "acquire_pixel img resolution_factor image_height image_width i j st =
     (let rad = py_int (dist_from_center (int i) (int j) (int image_height) (int image_width))
      in pbind (all_positive img i j) (\<lambda>positive.
           if \<not> positive then Inr st
           else if int i < int IGNORE_EDGE \<or> int j < int IGNORE_EDGE
                   \<or> int i > int image_height - int IGNORE_EDGE
                   \<or> int j > int image_width - int IGNORE_EDGE then Inr st
           else if resolution_factor = 0 then Inl ZeroDivisionError
           else if \<not> (i mod resolution_factor = 0 \<and> j mod resolution_factor = 0) then Inr st
           else
             let st1 = (if rad \<notin> set (radii st)
                        then st\<lparr>radii := radii st @ [rad],
                                rad_counts := (rad_counts st)(rad \<mapsto> [[], [], []])\<rparr>
                        else st)
             in append_pixel_samples img i j rad st1))"

definition acquire_pixel_values :: "real ndarray \<Rightarrow> nat \<Rightarrow> py_error + rad_state" where
  "acquire_pixel_values img resolution_factor =
     (if length (shape img) < 2 then Inl IndexError
      else
        let image_height = shape img ! 0;
            image_width = shape img ! 1
        in for_each (\<lambda>i. for_each (acquire_pixel img resolution_factor image_height image_width i)
                           [0..<image_width])
             [0..<image_height] \<lparr>radii = [], rad_counts = Map.empty\<rparr>)"

text \<open>
  One row of \<^verbatim>\<open>rad_profile\<close> and of \<^verbatim>\<open>rad_profile_raw_mean\<close>.  A cell is \<open>None\<close> when numpy
  would hold \<^verbatim>\<open>nan\<close> there.
\<close>

definition bin_of :: "rad_state \<Rightarrow> int \<Rightarrow> nat \<Rightarrow> py_error + real list" where
  "bin_of st rad b =
     (case rad_counts st rad of
        None \<Rightarrow> Inl KeyError
      | Some bins \<Rightarrow> if b < length bins then Inr (bins ! b) else Inl IndexError)"

definition radius_fraction :: "int \<Rightarrow> int \<Rightarrow> py_error + real option" where
  "radius_fraction rad maxrad =
     (if maxrad = 0 then Inl ZeroDivisionError else Inr (Some (real_of_int rad / real_of_int maxrad)))"

definition profile_row ::
  "sigmaclip_fn \<Rightarrow> float_fn \<Rightarrow> string \<Rightarrow> rad_state \<Rightarrow> int \<Rightarrow> int \<Rightarrow> py_error + real option list" where
  "profile_row sigmaclip py_float statistics st maxrad rad =
     pbind (radius_fraction rad maxrad) (\<lambda>x.
     pbind (pbind (bin_of st rad 0) (\<lambda>a. apply_statistics sigmaclip py_float a statistics)) (\<lambda>r.
     pbind (pbind (bin_of st rad 1) (\<lambda>a. apply_statistics sigmaclip py_float a statistics)) (\<lambda>g.
     pbind (pbind (bin_of st rad 2) (\<lambda>a. apply_statistics sigmaclip py_float a statistics)) (\<lambda>b.
     Inr [x, r, g, b]))))"

definition raw_mean_row :: "rad_state \<Rightarrow> int \<Rightarrow> int \<Rightarrow> py_error + real option list" where
  "raw_mean_row st maxrad rad =
     pbind (radius_fraction rad maxrad) (\<lambda>x.
     pbind (bin_of st rad 0) (\<lambda>r.
     pbind (bin_of st rad 1) (\<lambda>g.
     pbind (bin_of st rad 2) (\<lambda>b.
     Inr [x, np_mean r, np_mean g, np_mean b]))))"

text \<open>The tables are filled row by row, \<^verbatim>\<open>for rad in sorted(radii)\<close>.\<close>

definition fill_rows ::
  "sigmaclip_fn \<Rightarrow> float_fn \<Rightarrow> string \<Rightarrow> rad_state \<Rightarrow> int \<Rightarrow> int
     \<Rightarrow> real option list list \<times> real option list list
     \<Rightarrow> py_error + real option list list \<times> real option list list" where
  "fill_rows sigmaclip py_float statistics st maxrad rad tables =
     pbind (profile_row sigmaclip py_float statistics st maxrad rad) (\<lambda>row.
     pbind (raw_mean_row st maxrad rad) (\<lambda>raw.
     Inr (fst tables @ [row], snd tables @ [raw])))"

datatype message = RadProfileShape nat nat | SomethingIsWrong

text \<open>
  What this part leaves behind: the rows of \<^verbatim>\<open>rad_profile_raw_mean\<close>, the rows of
  \<^verbatim>\<open>rad_profile\<close> after the \<^verbatim>\<open>isnan\<close> filter, and what it printed.
\<close>

record profile_head =
  raw_mean_rows :: "real option list list"
  profile_rows :: "real option list list"
  stdout :: "message list"

definition calc_rad_profile_head ::
  "sigmaclip_fn \<Rightarrow> float_fn \<Rightarrow> real ndarray \<Rightarrow> string \<Rightarrow> nat \<Rightarrow> py_error + profile_head" where
  "calc_rad_profile_head sigmaclip py_float img statistics resolution_factor =
     (if length (shape img) < 2 then Inl IndexError
      else
        let image_height = shape img ! 0;
            image_width = shape img ! 1;
            maxrad = py_int (dist_from_center 0 0 (int image_height) (int image_width))
        in pbind (acquire_pixel_values img resolution_factor) (\<lambda>st.
           pbind (for_each (fill_rows sigmaclip py_float statistics st maxrad)
                    (sort (radii st)) ([], [])) (\<lambda>tables.
           let rad_profile = filter (list_all (\<lambda>x. x \<noteq> None)) (fst tables);
               out1 = [RadProfileShape (length rad_profile) 4];
               out2 = (if \<not> length rad_profile > IGNORE_RADII * 2
                       then out1 @ [SomethingIsWrong] else out1)
           in Inr \<lparr>raw_mean_rows = snd tables, profile_rows = rad_profile,
                    stdout = out2\<rparr>)))"

section \<open>Floating-point values\<close>

text \<open>
  Where the program goes on computing with \<^verbatim>\<open>nan\<close> and \<^verbatim>\<open>inf\<close>, a float is an exact real
  or one of the three special values.  The operations follow IEEE 754 as numpy applies
  it: a division by zero gives \<^verbatim>\<open>nan\<close> or an infinity (and a warning), never an exception,
  and every operation on \<^verbatim>\<open>nan\<close> gives \<^verbatim>\<open>nan\<close>.  Rounding, the overflow of finite results and
  the sign of zero are not represented: a zero divisor counts as \<open>+0\<close>.
\<close>

datatype float64 = Finite real | PosInf | NegInf | NaN




fun float_mul :: "float64 \<Rightarrow> float64 \<Rightarrow> float64" where
  "float_mul (Finite x) (Finite y) = Finite (x * y)"
| "float_mul NaN b = NaN"
| "float_mul a NaN = NaN"
| "float_mul PosInf (Finite y) = (if y = 0 then NaN else if 0 < y then PosInf else NegInf)"
| "float_mul NegInf (Finite y) = (if y = 0 then NaN else if 0 < y then NegInf else PosInf)"
| "float_mul (Finite x) PosInf = (if x = 0 then NaN else if 0 < x then PosInf else NegInf)"
| "float_mul (Finite x) NegInf = (if x = 0 then NaN else if 0 < x then NegInf else PosInf)"
| "float_mul PosInf PosInf = PosInf"
| "float_mul NegInf NegInf = PosInf"
| "float_mul PosInf NegInf = NegInf"
| "float_mul NegInf PosInf = NegInf"

fun float_div :: "float64 \<Rightarrow> float64 \<Rightarrow> float64" where
  "float_div (Finite x) (Finite y) =
     (if y \<noteq> 0 then Finite (x / y)
      else if x = 0 then NaN else if 0 < x then PosInf else NegInf)"
| "float_div NaN b = NaN"
| "float_div a NaN = NaN"
| "float_div (Finite x) PosInf = Finite 0"
| "float_div (Finite x) NegInf = Finite 0"
| "float_div PosInf (Finite y) = (if 0 \<le> y then PosInf else NegInf)"
| "float_div NegInf (Finite y) = (if 0 \<le> y then NegInf else PosInf)"
| "float_div PosInf b = NaN"
| "float_div NegInf b = NaN"

text \<open>\<^verbatim>\<open>a < b\<close> on floats: false whenever one side is \<^verbatim>\<open>nan\<close>.\<close>

fun float_less :: "float64 \<Rightarrow> float64 \<Rightarrow> bool" where
  "float_less (Finite x) (Finite y) = (x < y)"
| "float_less NaN b = False"
| "float_less a NaN = False"
| "float_less a NegInf = False"
| "float_less PosInf b = False"
| "float_less NegInf b = True"
| "float_less a PosInf = True"

text \<open>
  \<^verbatim>\<open>np.max\<close> of a float array: it raises on an empty array and gives \<^verbatim>\<open>nan\<close> as soon as one
  entry is \<^verbatim>\<open>nan\<close>.  \<^verbatim>\<open>np.mean\<close> is the sum over the length, \<^verbatim>\<open>nan\<close> on an empty array.
\<close>

definition float_max :: "float64 \<Rightarrow> float64 \<Rightarrow> float64" where
  "float_max a b = (if a = NaN \<or> b = NaN then NaN else if float_less a b then b else a)"

definition np_max_float :: "float64 list \<Rightarrow> py_error + float64" where
  "np_max_float xs = (if xs = [] then Inl ValueError else Inr (foldl float_max (hd xs) (tl xs)))"


section \<open>Radial profile: normalisation\<close>


text \<open>\<^verbatim>\<open>a[:, c]\<close> as a list, and \<^verbatim>\<open>np.max(a[:, c])\<close>.\<close>

definition column :: "'a ndarray \<Rightarrow> nat \<Rightarrow> py_error + 'a list" where
  "column a c =
     (if length (shape a) \<noteq> 2 \<or> \<not> c < shape a ! 1 then Inl IndexError
      else Inr (map (\<lambda>r. item a [r, c]) [0..<shape a ! 0]))"

definition np_max_column :: "float64 ndarray \<Rightarrow> nat \<Rightarrow> py_error + float64" where
  "np_max_column a c = pbind (column a c) np_max_float"

text \<open>
  \<^verbatim>\<open>a[:, c] = a[:, c] / m\<close>.  Nothing is raised for a zero, infinite or \<^verbatim>\<open>nan\<close> divisor: the
  column is filled with what the division gives and the program goes on.
\<close>

definition divide_column :: "float64 ndarray \<Rightarrow> nat \<Rightarrow> float64 \<Rightarrow> py_error + float64 ndarray" where
  "divide_column a c m =
     (if length (shape a) \<noteq> 2 \<or> \<not> c < shape a ! 1 then Inl IndexError
      else Inr (a\<lparr>item := (\<lambda>k. if length k = 2 \<and> k ! 1 = c then float_div (item a k) m
                               else item a k)\<rparr>))"



section \<open>Gradient correction\<close>

text \<open>
  \<^verbatim>\<open>load_image\<close> hands on a three-dimensional image as it was read, with the integer
  element type of the file (\<^verbatim>\<open>uint8\<close>, \<^verbatim>\<open>uint16\<close>), and a debayered one as a float array.  An
  assignment into an array converts the assigned float to the element type of the array
  as C does, truncating towards zero.  The conversion of a value that does not fit, of an
  infinity or of \<^verbatim>\<open>nan\<close> is undefined in C: what the platform stores then is the parameter
  \<open>overflow\<close>.
\<close>

datatype dtype = Float | UInt nat | SInt nat

type_synonym overflow_fn = "dtype \<Rightarrow> float64 \<Rightarrow> float64"

fun fits :: "dtype \<Rightarrow> real \<Rightarrow> bool" where
  "fits Float x = True"
| "fits (UInt n) x = (0 \<le> py_int x \<and> py_int x < 2 ^ n)"
| "fits (SInt n) x = (- (2 ^ (n - 1)) \<le> py_int x \<and> py_int x < 2 ^ (n - 1))"

definition astype :: "overflow_fn \<Rightarrow> dtype \<Rightarrow> float64 \<Rightarrow> float64" where
  "astype overflow t v =
     (if t = Float then v
      else case v of
             Finite x \<Rightarrow> if fits t x then Finite (real_of_int (py_int x)) else overflow t v
           | _ \<Rightarrow> overflow t v)"

text \<open>
  An array object with its element type.  The caller and \<^verbatim>\<open>corr_gradient\<close> share the
  object: the heap maps a reference to the object it names.
\<close>

record typed_array =
  pixels :: "float64 ndarray"
  dtype :: dtype















section \<open>Histograms\<close>

text \<open>
  \<^verbatim>\<open>image_rgb\<close> is a float array into which \<^verbatim>\<open>np.nan\<close> is written: its items are
  \<^typ>\<open>real option\<close>, \<open>None\<close> for \<^verbatim>\<open>nan\<close>.
\<close>

definition with_nan :: "real ndarray \<Rightarrow> real option ndarray" where
  "with_nan a = \<lparr>shape = shape a, item = (\<lambda>k. Some (item a k))\<rparr>"

definition mask_pixel :: "nat \<Rightarrow> nat \<Rightarrow> nat \<Rightarrow> nat \<Rightarrow> nat \<Rightarrow> real option ndarray \<Rightarrow> py_error + real option ndarray" where
  "mask_pixel height width c i j image_rgb =
     (let thisdist = dist_from_center (int i) (int j) (int height) (int width)
      in if thisdist > real (shape image_rgb ! 0) / 2 \<or> thisdist > real (shape image_rgb ! 1) / 2
         then setitem image_rgb [int i, int j, int c] None
         else Inr image_rgb)"

text \<open>\<^verbatim>\<open>image_rgb[:, :, c]\<close> flattened (row after row).\<close>

definition plane :: "'a ndarray \<Rightarrow> nat \<Rightarrow> 'a list" where
  "plane a c = concat (map (\<lambda>i. map (\<lambda>j. item a [i, j, c]) [0..<shape a ! 1]) [0..<shape a ! 0])"

text \<open>\<^verbatim>\<open>np.linspace(a, b, n)\<close>\<close>

definition np_linspace :: "real \<Rightarrow> real \<Rightarrow> nat \<Rightarrow> real list" where
  "np_linspace a b n = map (\<lambda>k. a + (b - a) * real k / real (n - 1)) [0..<n]"

text \<open>
  \<^verbatim>\<open>np.histogram(vals, edges)[0]\<close>: bin \<open>k\<close> is \<open>[edges[k], edges[k+1])\<close>, the last bin also holds
  its right edge; \<^verbatim>\<open>nan\<close> and the values outside the edges are in no bin.
\<close>

definition in_bin :: "real list \<Rightarrow> nat \<Rightarrow> real option \<Rightarrow> bool" where
  "in_bin edges k v =
     (case v of
        None \<Rightarrow> False
      | Some x \<Rightarrow> edges ! k \<le> x
                  \<and> (if k + 2 = length edges then x \<le> edges ! (k + 1) else x < edges ! (k + 1)))"

definition np_histogram :: "real option list \<Rightarrow> real list \<Rightarrow> nat list" where
  "np_histogram vals edges =
     map (\<lambda>k. length (filter (in_bin edges k) vals)) [0..<length edges - 1]"

text \<open>The bin edges of every histogram: \<^verbatim>\<open>np.linspace(0, 2 ** 12, 2 ** 8)\<close>.\<close>

definition bin_edges :: "real list" where
  "bin_edges = np_linspace 0 (2 ^ 12) (2 ^ 8)"

text \<open>
  The body of \<^verbatim>\<open>for c in range(3)\<close>.  \<^verbatim>\<open>data\<close> is kept as the list of its columns:
  \<^verbatim>\<open>np.column_stack\<close> appends one.
\<close>

definition histogram_channel ::
  "bool \<Rightarrow> nat \<Rightarrow> nat \<Rightarrow> nat \<Rightarrow> real option ndarray \<times> real list list
     \<Rightarrow> py_error + real option ndarray \<times> real list list" where
  "histogram_channel circular height width c st =
     pbind (when_do circular
              (for_each (\<lambda>i. for_each (mask_pixel height width c i) [0..<shape (fst st) ! 1])
                 [0..<shape (fst st) ! 0]) (fst st)) (\<lambda>image_rgb.
       let vals = (if c = 1 then plane image_rgb 1 @ plane image_rgb 2 else plane image_rgb c);
           edges = bin_edges;
           counts = np_histogram vals edges;
           bins = tl edges;
           data = (if c = 0 then [bins] else snd st)
       in Inr (image_rgb, data @ [map real counts]))"

definition calc_histograms :: "real ndarray \<Rightarrow> bool \<Rightarrow> py_error + real list list" where
  "calc_histograms img circular =
     pbind (merge_green img) (\<lambda>rgb.
       let image_rgb = with_nan rgb;
           height = shape image_rgb ! 0;
           width = shape image_rgb ! 1
       in pbind (for_each (histogram_channel circular height width) [0..<3] (image_rgb, []))
            (\<lambda>st. Inr (snd st)))"

section \<open>Synthetic flat\<close>

text \<open>
  The image under construction together with a history variable: \<open>written\<close> lists every
  item assignment to \<^verbatim>\<open>im_syn\<close> (index and value) in the order of execution.  The program
  never reads it; it is there to state which write reached a pixel first and which last.
\<close>

definition np_zeros_float :: "nat list \<Rightarrow> float64 ndarray" where
  "np_zeros_float shp = \<lparr>shape = shp, item = (\<lambda>_. Finite 0)\<rparr>"

record flat_state =
  im_syn :: "float64 ndarray"
  written :: "(nat list \<times> float64) list"

text \<open>\<^verbatim>\<open>im_syn[i, j] = v\<close>\<close>

definition assign_pixel :: "int \<Rightarrow> int \<Rightarrow> flat_state \<Rightarrow> float64 \<Rightarrow> py_error + flat_state" where
  "assign_pixel i j st v =
     pbind (resolve_index (shape (im_syn st)) [i, j])
       (\<lambda>k. Inr \<lparr>im_syn = (im_syn st)\<lparr>item := (item (im_syn st))(k := v)\<rparr>,
                  written = written st @ [(k, v)]\<rparr>)"

definition write_flat_pixel ::
  "flat_state \<Rightarrow> float64 ndarray \<Rightarrow> bool \<Rightarrow> int \<Rightarrow> real \<Rightarrow> real \<Rightarrow> py_error + flat_state" where
  "write_flat_pixel st rad_profile grey_flat r_index i j =
     (let i = py_int i; j = py_int j
      in if grey_flat then pbind (getitem rad_profile [r_index, 2]) (assign_pixel i j st)
         else
           pbind (when_do (i mod 2 = 0 \<and> j mod 2 = 0)
                    (\<lambda>s. pbind (getitem rad_profile [r_index, 1]) (assign_pixel i j s)) st) (\<lambda>s1.
           pbind (when_do (i mod 2 = 0 \<and> j mod 2 = 1)
                    (\<lambda>s. pbind (getitem rad_profile [r_index, 2]) (assign_pixel i j s)) s1) (\<lambda>s2.
           pbind (when_do (i mod 2 = 1 \<and> j mod 2 = 0)
                    (\<lambda>s. pbind (getitem rad_profile [r_index, 2]) (assign_pixel i j s)) s2) (\<lambda>s3.
           when_do (i mod 2 = 1 \<and> j mod 2 = 1)
                    (\<lambda>s. pbind (getitem rad_profile [r_index, 3]) (assign_pixel i j s)) s3))))"

text \<open>
  \<^verbatim>\<open>for k in range(1, halfheight)\<close> with its \<^verbatim>\<open>break\<close>: the loop ends at the first \<open>k\<close> that
  fails the test.  The source's names with a trailing underscore (\<^verbatim>\<open>halfheight_\<close>, \<^verbatim>\<open>di_\<close>)
  are written with a prime.
\<close>

fun write_multiples ::
  "float64 ndarray \<Rightarrow> bool \<Rightarrow> real \<Rightarrow> real \<Rightarrow> nat \<Rightarrow> nat \<Rightarrow> int \<Rightarrow> nat list \<Rightarrow> flat_state
     \<Rightarrow> py_error + flat_state" where
  "write_multiples rad_profile grey_flat halfheight' halfwidth' di dj r_index [] st = Inr st"
| "write_multiples rad_profile grey_flat halfheight' halfwidth' di dj r_index (k # ks) st =
     (if real (di * k) < halfheight' \<and> real (dj * k) < halfwidth' then
        (let di' = real (di * k) + 1 / 2;
             dj' = real (dj * k) + 1 / 2
         in pbind (write_flat_pixel st rad_profile grey_flat (r_index * int k)
                     (halfheight' + di') (halfwidth' + dj')) (\<lambda>st1.
            pbind (write_flat_pixel st1 rad_profile grey_flat (r_index * int k)
                     (halfheight' + di') (halfwidth' - dj')) (\<lambda>st2.
            pbind (write_flat_pixel st2 rad_profile grey_flat (r_index * int k)
                     (halfheight' - di') (halfwidth' + dj')) (\<lambda>st3.
            pbind (write_flat_pixel st3 rad_profile grey_flat (r_index * int k)
                     (halfheight' - di') (halfwidth' - dj'))
              (write_multiples rad_profile grey_flat halfheight' halfwidth' di dj r_index ks)))))
      else Inr st)"

text \<open>The body of the loops over \<^verbatim>\<open>di\<close> and \<^verbatim>\<open>dj\<close>.\<close>

definition flat_offset ::
  "float64 ndarray \<Rightarrow> bool \<Rightarrow> nat \<Rightarrow> nat \<Rightarrow> nat \<Rightarrow> nat \<Rightarrow> real \<Rightarrow> nat \<Rightarrow> nat \<Rightarrow> flat_state
     \<Rightarrow> py_error + flat_state" where
  "flat_offset rad_profile grey_flat height width halfheight halfwidth maxrad_this di dj st =
     (let i = halfheight + di;
          j = halfwidth + dj;
          halfheight' = real halfheight - 1 / 2;
          halfwidth' = real halfwidth - 1 / 2
      in pbind (getitem (im_syn st) [int i, int j]) (\<lambda>v.
           if \<not> v = Finite 0 then Inr st
           else if maxrad_this = 0 then Inl ZeroDivisionError
           else
             let r = dist_from_center (int i) (int j) (int height) (int width) / maxrad_this;
                 r_index = py_int (real (RADIAL_RESOLUTION - 1) * r)
             in write_multiples rad_profile grey_flat halfheight' halfwidth' di dj r_index
                  [1..<halfheight] st))"

text \<open>The iteration over \<open>(di, dj, k)\<close>, from the zeroed image.\<close>

definition flat_iteration :: "float64 ndarray \<Rightarrow> bool \<Rightarrow> nat \<Rightarrow> nat \<Rightarrow> py_error + flat_state" where
  "flat_iteration rad_profile grey_flat height width =
     (let halfheight = nat (py_int (real height / 2));
          halfwidth = nat (py_int (real width / 2));
          maxrad_this = dist_from_center 0 0 (int height) (int width)
      in for_each (\<lambda>di. for_each (flat_offset rad_profile grey_flat height width halfheight
                                     halfwidth maxrad_this di) [0..<halfwidth])
           [0..<halfheight] \<lparr>im_syn = np_zeros_float [height, width], written = []\<rparr>)"

text \<open>\<^verbatim>\<open>rad_profile[:, c + 1] = rad_profile[:, c + 1] / np.max(rad_profile[:, c + 1])\<close>\<close>

definition normalize_column :: "nat \<Rightarrow> float64 ndarray \<Rightarrow> py_error + float64 ndarray" where
  "normalize_column c rad_profile =
     pbind (np_max_column rad_profile (c + 1)) (divide_column rad_profile (c + 1))"

text \<open>All items of a 2-D array, row after row.\<close>

definition flatten2 :: "'a ndarray \<Rightarrow> 'a list" where
  "flatten2 a = concat (map (\<lambda>i. map (\<lambda>j. item a [i, j]) [0..<shape a ! 1]) [0..<shape a ! 0])"

text \<open>\<^verbatim>\<open>np.min\<close> of a float array.\<close>

definition float_min :: "float64 \<Rightarrow> float64 \<Rightarrow> float64" where
  "float_min a b = (if a = NaN \<or> b = NaN then NaN else if float_less b a then b else a)"

definition np_min_float :: "float64 list \<Rightarrow> py_error + float64" where
  "np_min_float xs = (if xs = [] then Inl ValueError else Inr (foldl float_min (hd xs) (tl xs)))"

text \<open>
  The conversion to 16 bit.  The division by the maximum raises nothing; when no pixel is
  positive after it (a zero or \<^verbatim>\<open>nan\<close> maximum), \<^verbatim>\<open>np.min(im_syn[im_syn > 0])\<close> raises.
  \<^verbatim>\<open>astype(np.uint16)\<close> converts as an assignment into a \<^verbatim>\<open>uint16\<close> array does.
\<close>

definition convert_16bit :: "overflow_fn \<Rightarrow> float64 ndarray \<Rightarrow> py_error + typed_array" where
  "convert_16bit overflow im =
     pbind (np_max_float (flatten2 im)) (\<lambda>m.
       let im1 = im\<lparr>item := (\<lambda>k. float_div (item im k) m)\<rparr>
       in pbind (np_min_float (filter (float_less (Finite 0)) (flatten2 im1))) (\<lambda>minimum.
            Inr \<lparr>pixels = \<lparr>shape = shape im1,
                           item = (\<lambda>k. astype overflow (UInt 16)
                                          (float_mul (Finite (2 ^ 16 - 1)) (item im1 k)))\<rparr>,
                  dtype = UInt 16\<rparr>))"

definition calc_synthetic_flat ::
  "overflow_fn \<Rightarrow> float64 ndarray \<Rightarrow> bool \<Rightarrow> nat \<times> nat \<Rightarrow> py_error + typed_array" where
  "calc_synthetic_flat overflow rad_profile grey_flat tif_size =
     (let sorted_size = sort [fst tif_size, snd tif_size];
          height = sorted_size ! 0;
          width = sorted_size ! 1
      in pbind (for_each normalize_column [0..<3] rad_profile) (\<lambda>rad_profile1.
         pbind (flat_iteration rad_profile1 grey_flat height width) (\<lambda>st.
         convert_16bit overflow (im_syn st))))"

section \<open>Basic facts\<close>

lemma pbind_Inr [simp]: "pbind (Inr x) f = f x"
  by (simp add: pbind_def)

lemma pbind_Inl [simp]: "pbind (Inl e) f = Inl e"
  by (simp add: pbind_def)

lemma pbind_eq_Inr: "pbind m f = Inr y \<longleftrightarrow> (\<exists>x. m = Inr x \<and> f x = Inr y)"
  by (cases m) simp_all

lemma py_int_of_int [simp]: "py_int (real_of_int k) = k"
  by (simp add: py_int_def)

lemma py_int_of_nat [simp]: "py_int (real n) = int n"
  by (simp add: py_int_def)

lemma py_int_nonneg: "0 \<le> x \<Longrightarrow> py_int x = \<lfloor>x\<rfloor>"
  by (simp add: py_int_def)

lemma np_index_nat [simp]: "i < n \<Longrightarrow> np_index n (int i) = Inr i"
  by (simp add: np_index_def)

lemma upt_3: "[0..<3] = [0, 1, 2]"
  by (simp add: upt_rec)

section \<open>Symmetry of the distance\<close>

text \<open>
  C7.  Whenever the pair of axis offsets \<open>(|i - h/2|, |j - w/2|)\<close> is a permutation of
  the pair \<open>(|i' - h/2|, |j' - w/2|)\<close>, \<^verbatim>\<open>dist_from_center\<close> returns the same distance
  for \<open>(i, j)\<close> and for \<open>(i', j')\<close>.
\<close>

theorem dist_from_center_symmetric:
  fixes i j i' j' h w :: int
  defines "a \<equiv> \<bar>real_of_int i - real_of_int h / 2\<bar>"
      and "b \<equiv> \<bar>real_of_int j - real_of_int w / 2\<bar>"
      and "a' \<equiv> \<bar>real_of_int i' - real_of_int h / 2\<bar>"
      and "b' \<equiv> \<bar>real_of_int j' - real_of_int w / 2\<bar>"
  assumes perm: "(a = a' \<and> b = b') \<or> (a = b' \<and> b = a')"
  shows "dist_from_center i j h w = dist_from_center i' j' h w"
proof -
  have swap: "sort [x, y] = sort [y, x]" for x y :: int
    by simp
  from perm show ?thesis
  proof
    assume "a = a' \<and> b = b'"
    then show ?thesis
      unfolding dist_from_center_def a_def b_def a'_def b'_def by simp
  next
    assume "a = b' \<and> b = a'"
    then show ?thesis
      unfolding dist_from_center_def a_def b_def a'_def b'_def Let_def
      by (simp only: swap)
  qed
qed

theorem dist_from_center_symmetric_witness:
  "dist_from_center 0 3 4 4 = dist_from_center 3 0 4 4
   \<and> dist_from_center 0 3 4 4 = sqrt 5"
proof -
  have "dist_from_center 0 3 4 4 = dist_from_center 3 0 4 4"
    by (rule dist_from_center_symmetric) simp
  moreover have "dist_from_center 0 3 4 4 = sqrt 5"
    by (simp add: dist_from_center_def py_int_def cached_dist_def)
  ultimately show ?thesis by simp
qed

section \<open>The fallback of the statistics selector\<close>

text \<open>
  C10.  For a non-empty sample and a statistics name that is none of \<^verbatim>\<open>median\<close>,
  \<^verbatim>\<open>min\<close>, \<^verbatim>\<open>max\<close> and does not begin with \<^verbatim>\<open>sigma clip\<close>, \<^verbatim>\<open>apply_statistics\<close> raises
  nothing and returns the arithmetic mean of the sample.
\<close>

theorem apply_statistics_unknown_is_mean:
  assumes "array \<noteq> []"
      and "take 10 statistics \<noteq> ''sigma clip''"
      and "statistics \<noteq> ''median''" and "statistics \<noteq> ''min''" and "statistics \<noteq> ''max''"
  shows "apply_statistics sigmaclip py_float array statistics
           = Inr (Some (sum_list array / real (length array)))"
  using assms by (simp add: apply_statistics_def np_mean_def)

theorem apply_statistics_unknown_is_mean_witness:
  "apply_statistics (\<lambda>xs lo hi. xs) (\<lambda>s. None) [1, 2, 6] ''average'' = Inr (Some 3)"
  using apply_statistics_unknown_is_mean
          [of "[1, 2, 6]" "''average''" "\<lambda>xs lo hi. xs" "\<lambda>s. None"]
  by simp

section \<open>Mosaic round trip\<close>

text \<open>
  C9.  The round trip \<^verbatim>\<open>bayer(debayer(image))\<close> at the 2 x 2 mosaic
  \<open>[[1, 2], [3, 4]]\<close>: \<^verbatim>\<open>debayer\<close> stores the four sites in the channels 0, 1, 2, 3,
  and \<^verbatim>\<open>bayer\<close> writes channel 1 to the lower left, channel 2 to the lower right and
  channel 3 to the upper right site, so the result is \<open>[[1, 4], [2, 3]]\<close> and not the
  original mosaic.
\<close>

theorem bayer_debayer_not_identity:
  "pbind (debayer (np_array2 [[1, 2], [3, 4]]) True) (\<lambda>d. pbind (bayer d) (\<lambda>b. Inr (tolist2 b)))
     = Inr [[1, 4], [2, 3]]"
  by (simp add: debayer_def bayer_def debayer_site_def bayer_site_def np_array2_def tolist2_def
      np_zeros_def getitem_def setitem_def when_do_def np_index_def py_int_def upt_rec)

section \<open>The pooled green bin\<close>

lemma for_each_append: "for_each f (xs @ ys) s = pbind (for_each f xs s) (for_each f ys)"
  by (induction xs arbitrary: s) (auto simp: pbind_def split: sum.splits)

lemma for_each_skip: "(\<And>x. x \<in> set xs \<Longrightarrow> f x s = Inr s) \<Longrightarrow> for_each f xs s = Inr s"
  by (induction xs) simp_all

lemma getitem3:
  "shape a = [h, w, c] \<Longrightarrow> i < h \<Longrightarrow> j < w \<Longrightarrow> k < c
     \<Longrightarrow> getitem a [int i, int j, int k] = Inr (item a [i, j, k])"
  by (simp add: getitem_def)

lemma getitem3_num:
  assumes "shape a = [h, w, 4]" "i < h" "j < w"
  shows "getitem a [int i, int j, 0] = Inr (item a [i, j, 0])"
    and "getitem a [int i, int j, 1] = Inr (item a [i, j, 1])"
    and "getitem a [int i, int j, 2] = Inr (item a [i, j, 2])"
    and "getitem a [int i, int j, 3] = Inr (item a [i, j, 3])"
  using getitem3 [OF assms, of 0] getitem3 [OF assms, of 1] getitem3 [OF assms, of 2]
    getitem3 [OF assms, of 3]
  by simp_all

definition positive4 :: "real ndarray \<Rightarrow> nat \<Rightarrow> nat \<Rightarrow> bool" where
  "positive4 img i j = (item img [i, j, 0] > 0 \<and> item img [i, j, 1] > 0
                        \<and> item img [i, j, 2] > 0 \<and> item img [i, j, 3] > 0)"

lemma all_positive_eq:
  assumes "shape img = [h, w, 4]" "i < h" "j < w"
  shows "all_positive img i j = Inr (positive4 img i j)"
  by (simp add: all_positive_def positive4_def getitem3_num [OF assms])


definition radius_of :: "nat \<Rightarrow> nat \<Rightarrow> nat \<times> nat \<Rightarrow> int" where
  "radius_of h w p = py_int (dist_from_center (int (fst p)) (int (snd p)) (int h) (int w))"

definition passes_filters :: "real ndarray \<Rightarrow> nat \<Rightarrow> nat \<Rightarrow> nat \<Rightarrow> nat \<times> nat \<Rightarrow> bool" where
  "passes_filters img rf h w p =
     (positive4 img (fst p) (snd p)
      \<and> IGNORE_EDGE \<le> fst p \<and> IGNORE_EDGE \<le> snd p
      \<and> int (fst p) \<le> int h - int IGNORE_EDGE \<and> int (snd p) \<le> int w - int IGNORE_EDGE
      \<and> fst p mod rf = 0 \<and> snd p mod rf = 0)"

definition pooled_bins :: "real ndarray \<Rightarrow> (nat \<times> nat) list \<Rightarrow> real list list" where
  "pooled_bins img ps =
     [map (\<lambda>p. item img [fst p, snd p, 0]) ps,
      concat (map (\<lambda>p. [item img [fst p, snd p, 1], item img [fst p, snd p, 2]]) ps),
      map (\<lambda>p. item img [fst p, snd p, 3]) ps]"

definition samples_at :: "real ndarray \<Rightarrow> nat \<Rightarrow> nat \<Rightarrow> nat \<Rightarrow> (nat \<times> nat) list \<Rightarrow> int \<Rightarrow> (nat \<times> nat) list" where
  "samples_at img rf h w ps rad =
     filter (\<lambda>p. passes_filters img rf h w p \<and> radius_of h w p = rad) ps"

lemma for_each_map: "for_each f (map g xs) s = for_each (\<lambda>x. f (g x)) xs s"
  by (induction xs arbitrary: s) (auto simp: pbind_def split: sum.splits)

lemma for_each_product:
  "for_each (\<lambda>i. for_each (f i) ys) xs s = for_each (\<lambda>p. f (fst p) (snd p)) (List.product xs ys) s"
proof (induction xs arbitrary: s)
  case Nil
  then show ?case by simp
next
  case (Cons x xs)
  show ?case
    by (simp add: for_each_append for_each_map Cons.IH cong: sum.case_cong)
       (simp add: pbind_def Cons.IH split: sum.splits)
qed

lemma append_samples:
  assumes shp: "shape img = [h, w, 4]" and ij: "i < h" "j < w"
      and bins: "rad_counts st rad = Some [r, g, b]"
  shows "append_pixel_samples img i j rad st
       = Inr (st\<lparr>rad_counts := (rad_counts st)(rad \<mapsto>
                [r @ [item img [i, j, 0]], g @ [item img [i, j, 1], item img [i, j, 2]],
                 b @ [item img [i, j, 3]]])\<rparr>)"
  using getitem3 [OF shp ij, of 0] getitem3 [OF shp ij, of 1] getitem3 [OF shp ij, of 2]
    getitem3 [OF shp ij, of 3] bins
  by (simp add: append_sample_def append_pixel_samples_def)

definition bins_inv :: "real ndarray \<Rightarrow> nat \<Rightarrow> nat \<Rightarrow> nat \<Rightarrow> (nat \<times> nat) list \<Rightarrow> rad_state \<Rightarrow> bool" where
  "bins_inv img rf h w ps st =
     (\<forall>rad. if samples_at img rf h w ps rad = []
            then rad \<notin> set (radii st) \<and> rad_counts st rad = None
            else rad \<in> set (radii st)
                 \<and> rad_counts st rad = Some (pooled_bins img (samples_at img rf h w ps rad)))"

lemma acquire_pixel_skip:
  assumes shp: "shape img = [h, w, 4]" and ij: "i < h" "j < w" and rf: "0 < rf"
      and no: "\<not> passes_filters img rf h w (i, j)"
  shows "acquire_pixel img rf h w i j st = Inr st"
  using no rf
  by (auto simp: acquire_pixel_def Let_def all_positive_eq [OF shp ij] passes_filters_def)

lemma acquire_pixel_pass:
  assumes shp: "shape img = [h, w, 4]" and ij: "i < h" "j < w" and rf: "0 < rf"
      and yes: "passes_filters img rf h w (i, j)"
      and inv: "bins_inv img rf h w ps st"
  shows "\<exists>st'. acquire_pixel img rf h w i j st = Inr st' \<and> bins_inv img rf h w (ps @ [(i, j)]) st'"
proof -
  let ?rad = "radius_of h w (i, j)"
  let ?qs = "samples_at img rf h w ps ?rad"
  let ?new = "[?qs @ [(i, j)]]"
  have guard: "all_positive img i j = Inr True"
    "\<not> (int i < int IGNORE_EDGE \<or> int j < int IGNORE_EDGE
        \<or> int i > int h - int IGNORE_EDGE \<or> int j > int w - int IGNORE_EDGE)"
    "rf \<noteq> 0" "i mod rf = 0 \<and> j mod rf = 0"
    using yes rf by (auto simp: all_positive_eq [OF shp ij] passes_filters_def)
  have rad: "py_int (dist_from_center (int i) (int j) (int h) (int w)) = ?rad"
    by (simp add: radius_of_def)
  have samples_snoc: "samples_at img rf h w (ps @ [(i, j)]) r
      = (if r = ?rad then samples_at img rf h w ps r @ [(i, j)] else samples_at img rf h w ps r)" for r
    using yes by (auto simp: samples_at_def)
  show ?thesis
  proof (cases "?rad \<in> set (radii st)")
    case True
    then have qs: "?qs \<noteq> []" and old: "rad_counts st ?rad = Some (pooled_bins img ?qs)"
      using inv by (auto simp: bins_inv_def split: if_splits dest: spec [of _ ?rad])
    have step: "acquire_pixel img rf h w i j st
        = Inr (st\<lparr>rad_counts := (rad_counts st)(?rad \<mapsto> pooled_bins img (?qs @ [(i, j)]))\<rparr>)"
      using True guard old
      by (simp add: acquire_pixel_def rad Let_def pooled_bins_def
          append_samples [OF shp ij, where st = st and rad = ?rad])
    have "bins_inv img rf h w (ps @ [(i, j)])
        (st\<lparr>rad_counts := (rad_counts st)(?rad \<mapsto> pooled_bins img (?qs @ [(i, j)]))\<rparr>)"
      using inv True by (auto simp: bins_inv_def samples_snoc split: if_splits)
    with step show ?thesis by simp
  next
    case False
    then have qs: "?qs = []"
      using inv by (auto simp: bins_inv_def split: if_splits dest: spec [of _ ?rad])
    let ?st1 = "st\<lparr>radii := radii st @ [?rad], rad_counts := (rad_counts st)(?rad \<mapsto> [[], [], []])\<rparr>"
    have st1: "rad_counts ?st1 ?rad = Some [[], [], []]" by simp
    have step: "acquire_pixel img rf h w i j st
        = Inr (?st1\<lparr>rad_counts := (rad_counts ?st1)(?rad \<mapsto> pooled_bins img [(i, j)])\<rparr>)"
      using False guard
      by (simp add: acquire_pixel_def rad Let_def pooled_bins_def
          append_samples [OF shp ij st1])
    have "bins_inv img rf h w (ps @ [(i, j)])
        (?st1\<lparr>rad_counts := (rad_counts ?st1)(?rad \<mapsto> pooled_bins img [(i, j)])\<rparr>)"
      using inv False qs by (auto simp: bins_inv_def samples_snoc split: if_splits)
    with step show ?thesis by simp
  qed
qed

lemma acquire_loop_inv:
  assumes shp: "shape img = [h, w, 4]" and rf: "0 < rf"
      and rng: "set ps \<subseteq> {0..<h} \<times> {0..<w}"
  shows "\<exists>st. for_each (\<lambda>p. acquire_pixel img rf h w (fst p) (snd p)) ps
                 \<lparr>radii = [], rad_counts = Map.empty\<rparr> = Inr st
              \<and> bins_inv img rf h w ps st"
  using rng
proof (induction ps rule: rev_induct)
  case Nil
  then show ?case by (simp add: bins_inv_def samples_at_def)
next
  case (snoc p ps)
  then obtain st where st: "for_each (\<lambda>p. acquire_pixel img rf h w (fst p) (snd p)) ps
                 \<lparr>radii = [], rad_counts = Map.empty\<rparr> = Inr st"
    and inv: "bins_inv img rf h w ps st"
    by auto
  obtain i j where p: "p = (i, j)" by (cases p)
  have ij: "i < h" "j < w" using snoc.prems p by auto
  show ?case
  proof (cases "passes_filters img rf h w (i, j)")
    case True
    from acquire_pixel_pass [OF shp ij rf True inv]
    show ?thesis by (auto simp: for_each_append st p)
  next
    case False
    have "bins_inv img rf h w (ps @ [(i, j)]) st"
      using inv False by (simp add: bins_inv_def samples_at_def)
    then show ?thesis
      by (auto simp: for_each_append st p acquire_pixel_skip [OF shp ij rf False])
  qed
qed

lemma acquire_pixel_values_inv:
  assumes shp: "shape img = [h, w, 4]" and rf: "0 < rf"
  shows "\<exists>st. acquire_pixel_values img rf = Inr st
              \<and> bins_inv img rf h w (List.product [0..<h] [0..<w]) st"
  using acquire_loop_inv [OF shp rf, of "List.product [0..<h] [0..<w]"]
  by (simp add: acquire_pixel_values_def shp for_each_product)

lemma length_pooled_bins:
  "length (pooled_bins img ps ! 1) = 2 * length (pooled_bins img ps ! 0)"
  "length (pooled_bins img ps ! 1) = 2 * length (pooled_bins img ps ! 2)"
  by (induction ps) (simp_all add: pooled_bins_def)


definition one_pixel_image :: "real ndarray" where
  "one_pixel_image =
     \<lparr>shape = [20, 20, 4],
      item = (\<lambda>k. if k ! 0 = 10 \<and> k ! 1 = 10 then real (k ! 2) + 1 else 0)\<rparr>"

lemma filter_eq_single:
  "distinct xs \<Longrightarrow> filter (\<lambda>p. p = a) xs = (if a \<in> set xs then [a] else [])"
  by (induction xs) auto

lemma one_pixel_samples:
  "samples_at one_pixel_image 2 20 20 (List.product [0..<20] [0..<20]) rad
     = (if rad = 0 then [(10, 10)] else [])"
proof -
  have pass: "passes_filters one_pixel_image 2 20 20 p \<longleftrightarrow> p = (10, 10)" for p
    by (cases p) (auto simp: passes_filters_def positive4_def one_pixel_image_def IGNORE_EDGE_def)
  have rad: "radius_of 20 20 (10, 10) = 0"
    by (simp add: radius_of_def dist_from_center_def cached_dist_def py_int_def)
  have "(\<lambda>p. passes_filters one_pixel_image 2 20 20 p \<and> radius_of 20 20 p = rad)
          = (\<lambda>p. p = (10, 10) \<and> rad = 0)"
    using rad by (auto simp: pass)
  then have "samples_at one_pixel_image 2 20 20 (List.product [0..<20] [0..<20]) rad
      = filter (\<lambda>p. p = (10, 10) \<and> rad = 0) (List.product [0..<20] [0..<20])"
    by (simp add: samples_at_def)
  also have "\<dots> = (if rad = 0 then [(10, 10)] else [])"
  proof (cases "rad = 0")
    case True
    have "distinct (List.product [0..<20::nat] [0..<20::nat])"
      by (rule distinct_product) simp_all
    moreover have "((10::nat), (10::nat)) \<in> set (List.product [0..<20] [0..<20])"
      by simp
    ultimately show ?thesis
      using True filter_eq_single [of "List.product [0..<20] [0..<20]" "(10::nat, 10::nat)"]
      by simp
  next
    case False
    then show ?thesis by simp
  qed
  finally show ?thesis .
qed


text \<open>
  C2.  For a four-channel image and a stride of at least 1 the acquisition loop raises
  nothing.  A radius is observed exactly when some pixel of that radius passes the
  positivity, edge-margin and stride filters; its three sample lists are then, over
  those pixels in scan order, the channel-0 values (R), the channel-1 and channel-2
  values of every pixel one after the other in the one shared list (G), and the
  channel-3 values (B).  Hence the green list is exactly twice as long as the R list
  and twice as long as the B list.
\<close>

theorem green_bin_pools_both_green_channels:
  assumes shp: "shape img = [h, w, 4]" and rf: "0 < rf"
  shows "\<exists>st. acquire_pixel_values img rf = Inr st
          \<and> (\<forall>rad. rad \<in> set (radii st)
                \<longleftrightarrow> samples_at img rf h w (List.product [0..<h] [0..<w]) rad \<noteq> [])
          \<and> (\<forall>rad \<in> set (radii st).
                rad_counts st rad
                  = Some (pooled_bins img (samples_at img rf h w (List.product [0..<h] [0..<w]) rad))
                \<and> (\<exists>r g b. rad_counts st rad = Some [r, g, b]
                       \<and> length g = 2 * length r \<and> length g = 2 * length b))"
proof -
  let ?ps = "List.product [0..<h] [0..<w]"
  obtain st where st: "acquire_pixel_values img rf = Inr st" and inv: "bins_inv img rf h w ?ps st"
    using acquire_pixel_values_inv [OF shp rf] by blast
  have a: "rad \<in> set (radii st) \<longleftrightarrow> samples_at img rf h w ?ps rad \<noteq> []" for rad
    using inv by (auto simp: bins_inv_def split: if_splits dest: spec [of _ rad])
  have b: "rad_counts st rad = Some (pooled_bins img (samples_at img rf h w ?ps rad))"
    if "rad \<in> set (radii st)" for rad
    using inv that by (auto simp: bins_inv_def split: if_splits dest: spec [of _ rad])
  have c: "\<exists>r g b. rad_counts st rad = Some [r, g, b]
                       \<and> length g = 2 * length r \<and> length g = 2 * length b"
    if "rad \<in> set (radii st)" for rad
    using b [OF that] length_pooled_bins [of img "samples_at img rf h w ?ps rad"]
    by (simp add: pooled_bins_def)
  show ?thesis using st a b c by blast
qed

theorem green_bin_pools_both_green_channels_witness:
  "\<exists>st. acquire_pixel_values one_pixel_image 2 = Inr st
        \<and> set (radii st) = {0}
        \<and> rad_counts st 0 = Some [[1], [2, 3], [4]]"
proof -
  let ?ps = "List.product [0..<20] [0..<20]"
  have shp: "shape one_pixel_image = [20, 20, 4]"
    by (simp add: one_pixel_image_def)
  have "\<exists>st. acquire_pixel_values one_pixel_image 2 = Inr st
          \<and> (\<forall>rad. rad \<in> set (radii st)
                \<longleftrightarrow> samples_at one_pixel_image 2 20 20 ?ps rad \<noteq> [])
          \<and> (\<forall>rad \<in> set (radii st).
                rad_counts st rad
                  = Some (pooled_bins one_pixel_image (samples_at one_pixel_image 2 20 20 ?ps rad))
                \<and> (\<exists>r g b. rad_counts st rad = Some [r, g, b]
                       \<and> length g = 2 * length r \<and> length g = 2 * length b))"
    by (rule green_bin_pools_both_green_channels [OF shp]) simp
  then obtain st where st: "acquire_pixel_values one_pixel_image 2 = Inr st"
    and a: "\<forall>rad. rad \<in> set (radii st)
               \<longleftrightarrow> samples_at one_pixel_image 2 20 20 ?ps rad \<noteq> []"
    and b: "\<forall>rad \<in> set (radii st). rad_counts st rad
               = Some (pooled_bins one_pixel_image (samples_at one_pixel_image 2 20 20 ?ps rad))
                \<and> (\<exists>r g b. rad_counts st rad = Some [r, g, b]
                       \<and> length g = 2 * length r \<and> length g = 2 * length b)"
    by blast
  have mem: "rad \<in> set (radii st) \<longleftrightarrow> rad = 0" for rad
    by (simp only: a [rule_format] one_pixel_samples) simp
  then have r: "set (radii st) = {0}"
    by blast
  have "0 \<in> set (radii st)" by (simp only: mem)
  with b have "rad_counts st 0 = Some (pooled_bins one_pixel_image (samples_at one_pixel_image 2 20 20 ?ps 0))"
    by blast
  then have "rad_counts st 0 = Some (pooled_bins one_pixel_image [(10, 10)])"
    by (simp only: one_pixel_samples refl if_True)
  then have "rad_counts st 0 = Some [[1], [2, 3], [4]]"
    by (simp add: pooled_bins_def one_pixel_image_def)
  with st r show ?thesis by blast
qed


section \<open>An image without a valid pixel\<close>

text \<open>
  C6.  For a four-channel image in which every pixel fails the positivity check, the
  first part of \<^verbatim>\<open>calc_rad_profile\<close> ends with an empty \<^verbatim>\<open>rad_profile\<close> and has printed
  the warning of the safety check (\<^verbatim>\<open>Something ist wrong!! Interrupt!\<close>): the condition
  is reported, no exception is raised at this point.
\<close>

theorem no_valid_pixel_is_reported:
  assumes shp: "shape img = [h, w, 4]"
      and bad: "\<And>i j. i < h \<Longrightarrow> j < w \<Longrightarrow> \<not> positive4 img i j"
  shows "calc_rad_profile_head sigmaclip py_float img statistics resolution_factor
           = Inr \<lparr>raw_mean_rows = [], profile_rows = [],
                   stdout = [RadProfileShape 0 4, SomethingIsWrong]\<rparr>"
proof -
  let ?s0 = "\<lparr>radii = [], rad_counts = Map.empty\<rparr>"
  have px: "acquire_pixel img resolution_factor h w i j st = Inr st" if "i < h" "j < w" for i j st
    using bad [OF that] by (simp add: acquire_pixel_def all_positive_eq [OF shp that])
  have row: "for_each (acquire_pixel img resolution_factor h w i) [0..<w] st = Inr st"
    if "i < h" for i st
    by (rule for_each_skip) (simp add: px that)
  have "for_each (\<lambda>i. for_each (acquire_pixel img resolution_factor h w i) [0..<w]) [0..<h] ?s0
          = Inr ?s0"
    by (rule for_each_skip) (simp add: row)
  then have acq: "acquire_pixel_values img resolution_factor = Inr ?s0"
    by (simp add: acquire_pixel_values_def shp)
  show ?thesis
    by (simp add: calc_rad_profile_head_def shp acq IGNORE_RADII_def)
qed

theorem no_valid_pixel_is_reported_witness:
  "calc_rad_profile_head (\<lambda>xs lo hi. xs) (\<lambda>s. None) (np_zeros [2, 2, 4]) ''mean'' 4
     = Inr \<lparr>raw_mean_rows = [], profile_rows = [],
            stdout = [RadProfileShape 0 4, SomethingIsWrong]\<rparr>"
proof (rule no_valid_pixel_is_reported [of _ 2 2])
  show "shape (np_zeros [2, 2, 4]) = [2, 2, 4]" by (simp add: np_zeros_def)
  show "\<not> positive4 (np_zeros [2, 2, 4]) i j" for i j
    by (simp add: np_zeros_def positive4_def)
qed

section \<open>Normalisation by the smoothed curve\<close>

subsection \<open>The maximum of a float array\<close>

lemma float_max_cases: "a \<noteq> NaN \<Longrightarrow> b \<noteq> NaN \<Longrightarrow> float_max a b = a \<or> float_max a b = b"
  by (simp add: float_max_def)

lemma float_max_NaN [simp]: "float_max NaN b = NaN" "float_max a NaN = NaN"
  by (simp_all add: float_max_def)

lemma float_max_upper:
  assumes "a \<noteq> NaN" "b \<noteq> NaN" "\<not> float_less M (float_max a b)"
  shows "\<not> float_less M a \<and> \<not> float_less M b"
  using assms by (cases M; cases a; cases b) (auto simp: float_max_def split: if_splits)


lemma foldl_float_max:
  assumes "NaN \<notin> set (a # xs)"
  shows "foldl float_max a xs \<in> set (a # xs)
       \<and> (\<forall>x \<in> set (a # xs). \<not> float_less (foldl float_max a xs) x)"
  using assms
proof (induction xs arbitrary: a)
  case Nil
  then show ?case by (cases a) simp_all
next
  case (Cons x xs)
  let ?b = "float_max a x"
  from Cons.prems have ax: "a \<noteq> NaN" "x \<noteq> NaN" by auto
  then have b: "?b = a \<or> ?b = x" by (rule float_max_cases)
  then have "NaN \<notin> set (?b # xs)" using Cons.prems by auto
  from Cons.IH [OF this] have ih: "foldl float_max ?b xs \<in> set (?b # xs)"
    "\<forall>y \<in> set (?b # xs). \<not> float_less (foldl float_max ?b xs) y"
    by simp_all
  from ih(2) have "\<not> float_less (foldl float_max ?b xs) ?b" by simp
  from float_max_upper [OF ax this] ih b show ?case by auto
qed

lemma float_less_total:
  "a \<noteq> NaN \<Longrightarrow> b \<noteq> NaN \<Longrightarrow> \<not> float_less a b \<Longrightarrow> \<not> float_less b a \<Longrightarrow> a = b"
  by (cases a; cases b) auto

lemma np_max_float_eqI:
  assumes "NaN \<notin> set xs" "b \<in> set xs" "\<forall>x \<in> set xs. \<not> float_less b x"
  shows "np_max_float xs = Inr b"
proof -
  from assms(2) obtain a ys where xs: "xs = a # ys" by (cases xs) auto
  let ?M = "foldl float_max a ys"
  from foldl_float_max [of a ys] assms(1) have M: "?M \<in> set xs" "\<forall>x \<in> set xs. \<not> float_less ?M x"
    by (simp_all add: xs)
  have "?M \<noteq> NaN" "b \<noteq> NaN" using M(1) assms(1,2) by auto
  moreover have "\<not> float_less ?M b" "\<not> float_less b ?M" using M assms by auto
  ultimately have "?M = b" by (rule float_less_total)
  then show ?thesis by (simp add: np_max_float_def xs)
qed




subsection \<open>The columns of the tables\<close>

text \<open>The entries of column \<open>c\<close> of a table.\<close>

definition col_values :: "'a ndarray \<Rightarrow> nat \<Rightarrow> 'a list" where
  "col_values a c = map (\<lambda>r. item a [r, c]) [0..<shape a ! 0]"

definition table_ok :: "'a ndarray \<Rightarrow> bool" where
  "table_ok a = (length (shape a) = 2 \<and> 4 \<le> shape a ! 1)"


definition scaled :: "float64 ndarray \<Rightarrow> nat \<Rightarrow> float64 \<Rightarrow> float64 ndarray" where
  "scaled a c m =
     a\<lparr>item := (\<lambda>k. if length k = 2 \<and> k ! 1 = c then float_div (item a k) m else item a k)\<rparr>"


lemma scaled_simps [simp]:
  "shape (scaled a c m) = shape a"
  "table_ok (scaled a c m) = table_ok a"
  "col_values (scaled a c m) c'
     = (if c' = c then map (\<lambda>x. float_div x m) (col_values a c) else col_values a c')"
  by (auto simp: scaled_def table_ok_def col_values_def)




definition scale_columns :: "nat list \<Rightarrow> (nat \<Rightarrow> float64) \<Rightarrow> float64 ndarray \<Rightarrow> float64 ndarray" where
  "scale_columns cs m a = fold (\<lambda>c b. scaled b (c + 1) (m (c + 1))) cs a"

lemma scale_columns_Nil [simp]: "scale_columns [] m a = a"
  by (simp add: scale_columns_def)

lemma scale_columns_Cons [simp]:
  "scale_columns (c # cs) m a = scale_columns cs m (scaled a (c + 1) (m (c + 1)))"
  by (simp add: scale_columns_def)


lemma table_ok_scale_columns [simp]: "table_ok (scale_columns cs m a) = table_ok a"
  by (induction cs arbitrary: a) auto

lemma shape_scale_columns [simp]: "shape (scale_columns cs m a) = shape a"
  by (induction cs arbitrary: a) auto




lemma upt_2: "[0..<2] = [0, 1]"
  by (simp add: upt_rec)

subsection \<open>The normalised tables\<close>






section \<open>The gradient that is subtracted\<close>
















subsection \<open>An image with a vertical ramp\<close>















section \<open>Counting the histogram\<close>

text \<open>The pixels that the circular restriction sets to \<^verbatim>\<open>nan\<close>.\<close>

definition masked :: "nat \<Rightarrow> nat \<Rightarrow> nat \<Rightarrow> nat \<Rightarrow> bool" where
  "masked h w i j =
     (dist_from_center (int i) (int j) (int h) (int w) > real h / 2
      \<or> dist_from_center (int i) (int j) (int h) (int w) > real w / 2)"

lemma mask_loop:
  assumes shp: "shape a = [h, w, n]" and c: "c < n"
      and rng: "set ps \<subseteq> {0..<h} \<times> {0..<w}"
  shows "\<exists>b. for_each (\<lambda>p. mask_pixel h w c (fst p) (snd p)) ps a = Inr b
           \<and> shape b = shape a
           \<and> (\<forall>i j c'. item b [i, j, c']
                 = (if c' = c \<and> (i, j) \<in> set ps \<and> masked h w i j then None else item a [i, j, c']))"
  using rng
proof (induction ps rule: rev_induct)
  case Nil
  then show ?case by simp
next
  case (snoc p ps)
  then obtain b where b: "for_each (\<lambda>p. mask_pixel h w c (fst p) (snd p)) ps a = Inr b"
    and sb: "shape b = shape a"
    and ib: "\<And>i j c'. item b [i, j, c']
                 = (if c' = c \<and> (i, j) \<in> set ps \<and> masked h w i j then None else item a [i, j, c'])"
    by auto
  obtain i j where p: "p = (i, j)" by (cases p)
  have ij: "i < h" "j < w" using snoc.prems p by auto
  have idx: "resolve_index (shape b) [int i, int j, int c] = Inr [i, j, c]"
    using ij c by (simp add: sb shp)
  have step: "mask_pixel h w c i j b
      = Inr (if masked h w i j then b\<lparr>item := (item b)([i, j, c] := None)\<rparr> else b)"
    using ij c by (simp add: mask_pixel_def masked_def sb shp setitem_def Let_def)
  show ?case
    by (rule exI [of _ "if masked h w i j then b\<lparr>item := (item b)([i, j, c] := None)\<rparr> else b"])
       (auto simp: for_each_append b p step sb ib)
qed

lemma mask_plane:
  assumes shp: "shape a = [h, w, n]" and c: "c < n"
  shows "\<exists>b. for_each (\<lambda>i. for_each (mask_pixel h w c i) [0..<w]) [0..<h] a = Inr b
           \<and> shape b = shape a
           \<and> (\<forall>i j c'. item b [i, j, c']
                 = (if c' = c \<and> i < h \<and> j < w \<and> masked h w i j then None else item a [i, j, c']))"
  using mask_loop [OF shp c, of "List.product [0..<h] [0..<w]"]
  by (simp add: for_each_product)

lemma count_by_value:
  assumes "\<And>v. v \<in> set vals \<Longrightarrow>
             sum_list (map (\<lambda>k. if P k v then 1 else 0) ks) = (if Q v then (1::nat) else 0)"
  shows "sum_list (map (\<lambda>k. length (filter (P k) vals)) ks) = length (filter Q vals)"
  using assms
proof (induction vals)
  case Nil
  then show ?case by simp
next
  case (Cons v vals)
  have "sum_list (map (\<lambda>k. length (filter (P k) (v # vals))) ks)
      = sum_list (map (\<lambda>k. (if P k v then 1 else 0) + length (filter (P k) vals)) ks)"
    by (rule arg_cong [of _ _ sum_list]) simp
  also have "\<dots> = sum_list (map (\<lambda>k. if P k v then 1 else 0) ks)
                    + sum_list (map (\<lambda>k. length (filter (P k) vals)) ks)"
    by (simp add: sum_list_addf)
  also have "\<dots> = (if Q v then 1 else 0) + length (filter Q vals)"
    using Cons by simp
  finally show ?case by simp
qed

text \<open>A value lies in exactly one bin when it is within the edges, and in none otherwise.\<close>

lemma half_open_bins:
  fixes e :: "nat \<Rightarrow> real"
  assumes mono: "\<And>k. k < m \<Longrightarrow> e k \<le> e (Suc k)"
  shows "(\<Sum>k<m. if e k \<le> x \<and> x < e (Suc k) then 1 else 0) = (if e 0 \<le> x \<and> x < e m then (1::nat) else 0)"
  using mono
proof (induction m)
  case 0
  then show ?case by simp
next
  case (Suc m)
  have le: "e 0 \<le> e m"
    using Suc.prems by (induction m) (auto intro: order_trans)
  have em: "e m \<le> e (Suc m)" using Suc.prems by simp
  have ih: "(\<Sum>k<m. if e k \<le> x \<and> x < e (Suc k) then 1 else 0)
      = (if e 0 \<le> x \<and> x < e m then (1::nat) else 0)"
    using Suc.prems by (intro Suc.IH) simp
  show ?case
  proof (cases "e 0 \<le> x \<and> x < e m")
    case True
    then have "\<not> e m \<le> x" "x < e (Suc m)" using em by auto
    with True show ?thesis by (simp add: ih)
  next
    case False
    then have "(e m \<le> x \<and> x < e (Suc m)) = (e 0 \<le> x \<and> x < e (Suc m))"
      using le em by auto
    with False show ?thesis by (simp add: ih)
  qed
qed

lemma one_bin:
  fixes edges :: "real list"
  assumes len: "2 \<le> length edges"
      and mono: "\<And>k. Suc k < length edges \<Longrightarrow> edges ! k \<le> edges ! Suc k"
  shows "sum_list (map (\<lambda>k. if in_bin edges k v then 1 else 0) [0..<length edges - 1])
       = (if (case v of None \<Rightarrow> False | Some x \<Rightarrow> edges ! 0 \<le> x \<and> x \<le> last edges)
          then (1::nat) else 0)"
proof (cases v)
  case None
  then show ?thesis by (simp add: in_bin_def)
next
  case (Some x)
  define N where "N = length edges - 2"
  have n: "length edges - 1 = Suc N" "length edges = N + 2" using len by (simp_all add: N_def)
  define e where "e = (\<lambda>k. edges ! k)"
  have m: "e k \<le> e (Suc k)" if "k < Suc N" for k
    using mono [of k] that n by (simp add: e_def)
  have le: "e 0 \<le> e N"
    using m by (induction N) (auto intro: order_trans)
  have lastN: "last edges = e (Suc N)"
  proof -
    have "edges \<noteq> []" using len by auto
    then have "last edges = edges ! (length edges - 1)" by (rule last_conv_nth)
    then show ?thesis using n(2) by (simp add: e_def)
  qed
  have "sum_list (map (\<lambda>k. if in_bin edges k v then 1 else 0) [0..<Suc N])
      = (\<Sum>k<Suc N. if in_bin edges k v then 1 else (0::nat))"
    by (simp add: interv_sum_list_conv_sum_set_nat atLeast0LessThan)
  also have "\<dots> = (\<Sum>k<N. if in_bin edges k v then 1 else 0) + (if in_bin edges N v then 1 else 0)"
    by simp
  also have "(\<Sum>k<N. if in_bin edges k v then 1 else (0::nat))
      = (\<Sum>k<N. if e k \<le> x \<and> x < e (Suc k) then 1 else 0)"
    by (rule sum.cong) (auto simp: in_bin_def Some n e_def)
  also have "\<dots> = (if e 0 \<le> x \<and> x < e N then 1 else 0)"
    using m by (intro half_open_bins) simp
  also have "(if in_bin edges N v then 1 else (0::nat)) = (if e N \<le> x \<and> x \<le> e (Suc N) then 1 else 0)"
    by (simp add: in_bin_def Some n e_def)
  finally have "sum_list (map (\<lambda>k. if in_bin edges k v then 1 else 0) [0..<Suc N])
      = (if e 0 \<le> x \<and> x \<le> e (Suc N) then (1::nat) else 0)"
    using le m [of N] by auto
  then show ?thesis
    unfolding n(1) Some option.case lastN by (simp only: e_def)
qed

lemma np_histogram_total:
  assumes "2 \<le> length edges"
      and "\<And>k. Suc k < length edges \<Longrightarrow> edges ! k \<le> edges ! Suc k"
  shows "sum_list (np_histogram vals edges)
       = length (filter (\<lambda>v. case v of None \<Rightarrow> False
                              | Some x \<Rightarrow> edges ! 0 \<le> x \<and> x \<le> last edges) vals)"
  unfolding np_histogram_def
  by (rule count_by_value) (rule one_bin [OF assms])

lemma histogram_edges:
  "length (bin_edges) = 256"
  "bin_edges ! 0 = 0"
  "last (bin_edges) = 2 ^ 12"
  "Suc k < length (bin_edges)
     \<Longrightarrow> bin_edges ! k \<le> bin_edges ! Suc k"
  by (simp_all add: bin_edges_def np_linspace_def last_conv_nth divide_right_mono)

text \<open>The number of values that \<^verbatim>\<open>np.histogram\<close> counts over the edges of \<^verbatim>\<open>calc_histograms\<close>.\<close>

definition in_range :: "real option \<Rightarrow> bool" where
  "in_range v = (case v of None \<Rightarrow> False | Some x \<Rightarrow> 0 \<le> x \<and> x \<le> 2 ^ 12)"

lemma histogram_counts_total:
  "sum_list (map real (np_histogram vals (bin_edges)))
     = real (length (filter in_range vals))"
proof -
  have "sum_list (np_histogram vals (bin_edges))
      = length (filter (\<lambda>v. case v of None \<Rightarrow> False
                 | Some x \<Rightarrow> bin_edges ! 0 \<le> x
                             \<and> x \<le> last (bin_edges)) vals)"
  proof (rule np_histogram_total)
    show "2 \<le> length (bin_edges)"
      by (simp add: histogram_edges(1))
    show "bin_edges ! k \<le> bin_edges ! Suc k"
      if "Suc k < length (bin_edges)" for k
      using that by (rule histogram_edges(4))
  qed
  then have "sum_list (np_histogram vals (bin_edges)) = length (filter in_range vals)"
    by (simp add: histogram_edges in_range_def [abs_def] cong: option.case_cong)
  then show ?thesis
    by (simp add: sum_list_of_nat)
qed

lemma merge_green_ok:
  assumes "shape img = [h, w, n]" "4 \<le> n"
  shows "\<exists>rgb. merge_green img = Inr rgb \<and> shape rgb = [h, w, 3]
           \<and> (\<forall>i j. item rgb [i, j, 0] = item img [i, j, 0]
                    \<and> item rgb [i, j, 1] = (item img [i, j, 1] + item img [i, j, 2]) / 2
                    \<and> item rgb [i, j, 2] = item img [i, j, 3])"
  using assms by (simp add: merge_green_def)

lemma plane_product:
  assumes "shape a = [h, w, n]"
  shows "plane a c = map (\<lambda>p. item a [fst p, snd p, c]) (List.product [0..<h] [0..<w])"
proof -
  have "concat (map (\<lambda>i. map (\<lambda>j. f i j) ys) xs) = map (\<lambda>p. f (fst p) (snd p)) (List.product xs ys)"
    for f :: "nat \<Rightarrow> nat \<Rightarrow> 'b" and xs ys
    by (induction xs) (simp_all add: comp_def)
  then show ?thesis
    by (simp add: plane_def assms)
qed

definition counted_pixels :: "real ndarray \<Rightarrow> nat \<Rightarrow> nat \<Rightarrow> nat \<Rightarrow> (nat \<times> nat) set" where
  "counted_pixels img h w ch =
     {(i, j). i < h \<and> j < w \<and> \<not> masked h w i j
              \<and> 0 \<le> item img [i, j, ch] \<and> item img [i, j, ch] \<le> 2 ^ 12}"

lemma count_plane:
  assumes shp: "shape b = [h, w, n]"
      and itm: "\<And>i j. i < h \<Longrightarrow> j < w \<Longrightarrow>
                  item b [i, j, c] = (if masked h w i j then None else Some (item img [i, j, ch]))"
  shows "length (filter in_range (plane b c)) = card (counted_pixels img h w ch)"
proof -
  let ?ps = "List.product [0..<h] [0..<w]"
  have d: "distinct ?ps" by (rule distinct_product) simp_all
  have "length (filter in_range (plane b c))
      = length (filter (\<lambda>p. in_range (item b [fst p, snd p, c])) ?ps)"
    by (simp add: plane_product [OF shp] filter_map comp_def)
  also have "\<dots> = card {p \<in> set ?ps. in_range (item b [fst p, snd p, c])}"
    using d by (simp add: distinct_length_filter Int_def conj_commute)
  also have "{p \<in> set ?ps. in_range (item b [fst p, snd p, c])} = counted_pixels img h w ch"
    by (auto simp: counted_pixels_def itm in_range_def split: if_splits)
  finally show ?thesis .
qed

lemma histogram_channel_circular:
  assumes shp: "shape a = [h, w, 3]" and c: "c < 3"
  shows "\<exists>b. histogram_channel True h w c (a, data)
             = Inr (b, (if c = 0 then [tl bin_edges] else data)
                       @ [map real (np_histogram
                            (if c = 1 then plane b 1 @ plane b 2 else plane b c) bin_edges)])
           \<and> shape b = [h, w, 3]
           \<and> (\<forall>i j c'. item b [i, j, c']
                 = (if c' = c \<and> i < h \<and> j < w \<and> masked h w i j then None else item a [i, j, c']))"
proof -
  from mask_plane [OF shp c] obtain b where
    b: "for_each (\<lambda>i. for_each (mask_pixel h w c i) [0..<w]) [0..<h] a = Inr b"
    and sb: "shape b = shape a"
    and ib: "\<forall>i j c'. item b [i, j, c']
                 = (if c' = c \<and> i < h \<and> j < w \<and> masked h w i j then None else item a [i, j, c'])"
    by blast
  have "histogram_channel True h w c (a, data)
             = Inr (b, (if c = 0 then [tl bin_edges] else data)
                       @ [map real (np_histogram
                            (if c = 1 then plane b 1 @ plane b 2 else plane b c) bin_edges)])"
    by (simp add: histogram_channel_def when_do_def shp b Let_def)
  with sb ib shp show ?thesis by auto
qed

lemma count_plane_unmasked:
  assumes shp: "shape b = [h, w, n]"
      and itm: "\<And>i j. i < h \<Longrightarrow> j < w \<Longrightarrow> item b [i, j, c] = Some (f i j)"
  shows "length (filter in_range (plane b c))
       = card {(i, j). i < h \<and> j < w \<and> 0 \<le> f i j \<and> f i j \<le> 2 ^ 12}"
proof -
  let ?ps = "List.product [0..<h] [0..<w]"
  have d: "distinct ?ps" by (rule distinct_product) simp_all
  have "length (filter in_range (plane b c))
      = length (filter (\<lambda>p. in_range (item b [fst p, snd p, c])) ?ps)"
    by (simp add: plane_product [OF shp] filter_map comp_def)
  also have "\<dots> = card {p \<in> set ?ps. in_range (item b [fst p, snd p, c])}"
    using d by (simp add: distinct_length_filter Int_def conj_commute)
  also have "{p \<in> set ?ps. in_range (item b [fst p, snd p, c])}
      = {(i, j). i < h \<and> j < w \<and> 0 \<le> f i j \<and> f i j \<le> 2 ^ 12}"
    by (auto simp: itm in_range_def)
  finally show ?thesis .
qed

text \<open>
  The three sums of a circular run.  The green values are those of plane 1 after its
  mask followed by those of plane 2 before its mask.
\<close>

lemma calc_histograms_circular_sums:
  assumes shp: "shape img = [h, w, n]" and n: "4 \<le> n"
  shows "\<exists>data. calc_histograms img True = Inr data
          \<and> length data = 4
          \<and> sum_list (data ! 1) = real (card (counted_pixels img h w 0))
          \<and> sum_list (data ! 2)
               = real (card {(i, j). i < h \<and> j < w \<and> \<not> masked h w i j
                               \<and> 0 \<le> (item img [i, j, 1] + item img [i, j, 2]) / 2
                               \<and> (item img [i, j, 1] + item img [i, j, 2]) / 2 \<le> 2 ^ 12}
                      + card {(i, j). i < h \<and> j < w
                               \<and> 0 \<le> item img [i, j, 3] \<and> item img [i, j, 3] \<le> 2 ^ 12})
          \<and> sum_list (data ! 3) = real (card (counted_pixels img h w 3))"
proof -
  from merge_green_ok [OF shp n] obtain rgb where
    rgb: "merge_green img = Inr rgb" and srgb: "shape rgb = [h, w, 3]"
    and irgb: "\<And>i j. item rgb [i, j, 0] = item img [i, j, 0]"
              "\<And>i j. item rgb [i, j, 1] = (item img [i, j, 1] + item img [i, j, 2]) / 2"
              "\<And>i j. item rgb [i, j, 2] = item img [i, j, 3]"
    by blast
  let ?a = "with_nan rgb"
  have sa: "shape ?a = [h, w, 3]" by (simp add: with_nan_def srgb)
  have ia: "item ?a k = Some (item rgb k)" for k by (simp add: with_nan_def)
  from histogram_channel_circular [OF sa, of 0 "[]"] obtain b0 where
    r0: "histogram_channel True h w 0 (?a, [])
           = Inr (b0, [tl bin_edges, map real (np_histogram (plane b0 0) bin_edges)])"
    and s0: "shape b0 = [h, w, 3]"
    and i0: "\<And>i j c'. item b0 [i, j, c']
                 = (if c' = 0 \<and> i < h \<and> j < w \<and> masked h w i j then None else item ?a [i, j, c'])"
    by auto
  let ?d0 = "[tl bin_edges, map real (np_histogram (plane b0 0) bin_edges)]"
  from histogram_channel_circular [OF s0, of 1 ?d0] obtain b1 where
    r1: "histogram_channel True h w 1 (b0, ?d0)
           = Inr (b1, [tl bin_edges, map real (np_histogram (plane b0 0) bin_edges),
                       map real (np_histogram (plane b1 1 @ plane b1 2) bin_edges)])"
    and s1: "shape b1 = [h, w, 3]"
    and i1: "\<And>i j c'. item b1 [i, j, c']
                 = (if c' = 1 \<and> i < h \<and> j < w \<and> masked h w i j then None else item b0 [i, j, c'])"
    by auto
  let ?d1 = "[tl bin_edges, map real (np_histogram (plane b0 0) bin_edges),
              map real (np_histogram (plane b1 1 @ plane b1 2) bin_edges)]"
  from histogram_channel_circular [OF s1, of 2 ?d1] obtain b2 where
    r2: "histogram_channel True h w 2 (b1, ?d1)
           = Inr (b2, [tl bin_edges, map real (np_histogram (plane b0 0) bin_edges),
                       map real (np_histogram (plane b1 1 @ plane b1 2) bin_edges),
                       map real (np_histogram (plane b2 2) bin_edges)])"
    and s2: "shape b2 = [h, w, 3]"
    and i2: "\<And>i j c'. item b2 [i, j, c']
                 = (if c' = 2 \<and> i < h \<and> j < w \<and> masked h w i j then None else item b1 [i, j, c'])"
    by auto
  let ?data = "[tl bin_edges, map real (np_histogram (plane b0 0) bin_edges),
                map real (np_histogram (plane b1 1 @ plane b1 2) bin_edges),
                map real (np_histogram (plane b2 2) bin_edges)]"
  have run: "calc_histograms img True = Inr ?data"
    by (simp add: calc_histograms_def rgb Let_def sa upt_3 r0 r1 r2 del: One_nat_def)
  have red: "length (filter in_range (plane b0 0)) = card (counted_pixels img h w 0)"
    by (rule count_plane [OF s0]) (simp add: i0 ia irgb)
  have blue: "length (filter in_range (plane b2 2)) = card (counted_pixels img h w 3)"
    by (rule count_plane [OF s2]) (simp add: i2 i1 i0 ia irgb)
  let ?rgbimg = "\<lparr>shape = [h, w, 3], item = item rgb\<rparr> :: real ndarray"
  have g1: "length (filter in_range (plane b1 1)) = card (counted_pixels ?rgbimg h w 1)"
    by (rule count_plane [OF s1]) (simp add: i1 i0 ia)
  have g1': "counted_pixels ?rgbimg h w 1
      = {(i, j). i < h \<and> j < w \<and> \<not> masked h w i j
                               \<and> 0 \<le> (item img [i, j, 1] + item img [i, j, 2]) / 2
                               \<and> (item img [i, j, 1] + item img [i, j, 2]) / 2 \<le> 2 ^ 12}"
    by (simp only: counted_pixels_def ndarray.select_convs irgb)
  have g2: "length (filter in_range (plane b1 2))
      = card {(i, j). i < h \<and> j < w \<and> 0 \<le> item img [i, j, 3] \<and> item img [i, j, 3] \<le> 2 ^ 12}"
    by (rule count_plane_unmasked [OF s1]) (simp add: i1 i0 ia irgb)
  have "length ?data = 4" by simp
  moreover have "sum_list (?data ! 1) = real (card (counted_pixels img h w 0))"
    by (simp add: histogram_counts_total red)
  moreover have "sum_list (?data ! 2)
               = real (card {(i, j). i < h \<and> j < w \<and> \<not> masked h w i j
                               \<and> 0 \<le> (item img [i, j, 1] + item img [i, j, 2]) / 2
                               \<and> (item img [i, j, 1] + item img [i, j, 2]) / 2 \<le> 2 ^ 12}
                      + card {(i, j). i < h \<and> j < w
                               \<and> 0 \<le> item img [i, j, 3] \<and> item img [i, j, 3] \<le> 2 ^ 12})"
    using g1 g1' g2 by (simp add: histogram_counts_total del: One_nat_def)
  moreover have "sum_list (?data ! 3) = real (card (counted_pixels img h w 3))"
    by (simp add: histogram_counts_total blue numeral_3_eq_3)
  ultimately show ?thesis
    using run by blast
qed


text \<open>
  The pixels strictly inside the inscribed circle, in the words of the specification:
  the circle around the image centre with radius half the shorter side, the distance
  being the one \<^verbatim>\<open>calc_histograms\<close> uses.
\<close>

definition strictly_inside :: "nat \<Rightarrow> nat \<Rightarrow> (nat \<times> nat) set" where
  "strictly_inside h w =
     {(i, j). i < h \<and> j < w
              \<and> dist_from_center (int i) (int j) (int h) (int w) < min (real h) (real w) / 2}"

definition uniform_image :: "real ndarray" where
  "uniform_image = \<lparr>shape = [2, 2, 4], item = (\<lambda>k. 100)\<rparr>"

definition bright_red_image :: "real ndarray" where
  "bright_red_image = \<lparr>shape = [2, 2, 4], item = (\<lambda>k. if k ! 2 = 0 then 5000 else 100)\<rparr>"

lemma dist_2x2:
  "dist_from_center 0 0 2 2 = sqrt 2" "dist_from_center 0 1 2 2 = 1"
  "dist_from_center 1 0 2 2 = 1" "dist_from_center 1 1 2 2 = 0"
  by (simp_all add: dist_from_center_def cached_dist_def py_int_def)

lemma masked_2x2:
  "masked 2 2 0 0" "\<not> masked 2 2 0 (Suc 0)" "\<not> masked 2 2 (Suc 0) 0"
  "\<not> masked 2 2 (Suc 0) (Suc 0)"
  using dist_2x2 by (simp_all add: masked_def)

lemma unmasked_2x2:
  "{(i, j). i < 2 \<and> j < 2 \<and> \<not> masked 2 2 i j} = {(0, Suc 0), (Suc 0, 0), (Suc 0, Suc 0)}"
  using masked_2x2 by (auto simp: less_2_cases_iff)

lemma all_2x2:
  "{(i, j). i < 2 \<and> j < (2::nat)} = {(0, 0), (0, Suc 0), (Suc 0, 0), (Suc 0, Suc 0)}"
  by (auto simp: less_2_cases_iff)

lemma strictly_inside_2x2: "strictly_inside 2 2 = {(Suc 0, Suc 0)}"
  using dist_2x2 by (auto simp: strictly_inside_def less_2_cases_iff)


text \<open>
  C8 (amended).  With the circular restriction enabled and an image of at least four
  channels, \<^verbatim>\<open>calc_histograms\<close> returns four columns, and the bin counts of the R column
  and of the B column each sum to the number of pixels that are not masked and whose
  value in that channel lies in the histogram range from 0 to 4096 (both included).  A
  pixel is masked when its distance from the centre, as \<^verbatim>\<open>dist_from_center\<close> truncates it,
  exceeds half the height or half the width; a pixel at exactly that distance is kept.
  Nothing is stated about the green column.
\<close>

theorem circular_histogram_counts:
  assumes shp: "shape img = [h, w, n]" and n: "4 \<le> n"
  shows "\<exists>data. calc_histograms img True = Inr data
          \<and> length data = 4
          \<and> sum_list (data ! 1) = real (card (counted_pixels img h w 0))
          \<and> sum_list (data ! 3) = real (card (counted_pixels img h w 3))"
  using calc_histograms_circular_sums [OF shp n] by blast

text \<open>
  The claim as stated fails on the 2 x 2 image whose values are all 100: one pixel is
  strictly inside the inscribed circle, the R and B counts sum to 3 (the two pixels at
  distance exactly 1 are kept), and the green counts sum to 7, more than the image has
  pixels (plane 2 is appended to the green values before it is masked).
\<close>

theorem circular_histogram_counts_counterexample:
  "\<exists>data. calc_histograms uniform_image True = Inr data
         \<and> sum_list (data ! 1) = 3 \<and> sum_list (data ! 2) = 7 \<and> sum_list (data ! 3) = 3
         \<and> card (strictly_inside 2 2) = 1"
proof -
  have shp: "shape uniform_image = [2, 2, 4]" by (simp add: uniform_image_def)
  have c: "counted_pixels uniform_image 2 2 ch = {(0, Suc 0), (Suc 0, 0), (Suc 0, Suc 0)}" for ch
    using unmasked_2x2 by (simp add: counted_pixels_def uniform_image_def)
  have g: "{(i, j). i < 2 \<and> j < 2 \<and> \<not> masked 2 2 i j
                \<and> 0 \<le> (item uniform_image [i, j, 1] + item uniform_image [i, j, 2]) / 2
                \<and> (item uniform_image [i, j, 1] + item uniform_image [i, j, 2]) / 2 \<le> 2 ^ 12}
        = {(0, Suc 0), (Suc 0, 0), (Suc 0, Suc 0)}"
    using unmasked_2x2 by (simp add: uniform_image_def)
  have b: "{(i, j). i < 2 \<and> j < 2 \<and> 0 \<le> item uniform_image [i, j, 3]
                \<and> item uniform_image [i, j, 3] \<le> 2 ^ 12}
        = {(0, 0), (0, Suc 0), (Suc 0, 0), (Suc 0, Suc 0)}"
    using all_2x2 by (simp add: uniform_image_def)
  from calc_histograms_circular_sums [OF shp] show ?thesis
    by (simp only: c g b strictly_inside_2x2) auto
qed


theorem circular_histogram_counts_witness:
  "\<exists>data. calc_histograms bright_red_image True = Inr data
         \<and> length data = 4 \<and> sum_list (data ! 1) = 0 \<and> sum_list (data ! 3) = 3"
proof -
  have shp: "shape bright_red_image = [2, 2, 4]" by (simp add: bright_red_image_def)
  have r: "counted_pixels bright_red_image 2 2 0 = {}"
    by (auto simp: counted_pixels_def bright_red_image_def)
  have b: "counted_pixels bright_red_image 2 2 3 = {(0, Suc 0), (Suc 0, 0), (Suc 0, Suc 0)}"
    using unmasked_2x2 by (simp add: counted_pixels_def bright_red_image_def)
  from circular_histogram_counts [OF shp] show ?thesis
    by (simp only: r b) auto
qed

section \<open>The synthetic flat\<close>

section \<open>First and last writes\<close>

lemma half_nat [simp]: "nat (py_int (real n / 2)) = n div 2"
proof -
  have "\<lfloor>real n / real 2\<rfloor> = int (n div 2)"
    by (rule floor_divide_of_nat_eq)
  then show ?thesis by (simp add: py_int_def)
qed

lemma pbind_Inr_right [simp]: "pbind m Inr = m"
  by (cases m) simp_all

lemma when_do_False [simp]: "when_do False body = Inr"
  by (rule ext) (simp add: when_do_def)

lemma when_do_True [simp]: "when_do True body = body"
  by (rule ext) (simp add: when_do_def)

lemma for_each_Inr_induct:
  assumes "for_each f xs s = Inr s'" and "P s"
      and "\<And>x t t'. x \<in> set xs \<Longrightarrow> P t \<Longrightarrow> f x t = Inr t' \<Longrightarrow> P t'"
  shows "P s'"
  using assms
proof (induction xs arbitrary: s)
  case Nil
  then show ?case by simp
next
  case (Cons x xs)
  from Cons.prems(1) obtain t where t: "f x s = Inr t" and rest: "for_each f xs t = Inr s'"
    by (auto simp: pbind_eq_Inr)
  have "P t" using Cons.prems(2,3) t by auto
  with rest show ?case using Cons.prems(3) by (intro Cons.IH) auto
qed

text \<open>Which profile column a pixel takes its value from.\<close>

definition channel_of :: "bool \<Rightarrow> nat list \<Rightarrow> nat" where
  "channel_of grey_flat idx =
     (if grey_flat then 2
      else if even (idx ! 0) \<and> even (idx ! 1) then 1
      else if odd (idx ! 0) \<and> odd (idx ! 1) then 3
      else 2)"

definition put :: "flat_state \<Rightarrow> nat list \<Rightarrow> float64 \<Rightarrow> flat_state" where
  "put st idx v = \<lparr>im_syn = (im_syn st)\<lparr>item := (item (im_syn st))(idx := v)\<rparr>,
                   written = written st @ [(idx, v)]\<rparr>"

lemma put_simps [simp]:
  "shape (im_syn (put st idx v)) = shape (im_syn st)"
  "written (put st idx v) = written st @ [(idx, v)]"
  "item (im_syn (put st idx v)) = (item (im_syn st))(idx := v)"
  by (simp_all add: put_def)

lemma assign_pixel_nat:
  assumes "shape (im_syn st) = [H, W]" "a < H" "b < W"
  shows "assign_pixel (int a) (int b) st v = Inr (put st [a, b] v)"
  using assms by (simp add: assign_pixel_def put_def)

lemma write_flat_pixel_nat:
  assumes shp: "shape (im_syn st) = [H, W]" and rng: "a < H" "b < W"
      and ij: "py_int i = int a" "py_int j = int b"
  shows "write_flat_pixel st rad_profile grey_flat r i j
       = pbind (getitem rad_profile [r, int (channel_of grey_flat [a, b])])
           (\<lambda>v. Inr (put st [a, b] v))"
proof -
  have par: "int a mod 2 = 0 \<longleftrightarrow> even a" "int a mod 2 = 1 \<longleftrightarrow> odd a"
    "int b mod 2 = 0 \<longleftrightarrow> even b" "int b mod 2 = 1 \<longleftrightarrow> odd b"
    by presburger+
  have asg: "assign_pixel (int a) (int b) s = (\<lambda>v. Inr (put s [a, b] v))"
    if "shape (im_syn s) = [H, W]" for s
    using assign_pixel_nat [OF that rng] by auto
  show ?thesis
    unfolding write_flat_pixel_def Let_def ij
    by (cases grey_flat; cases "even a"; cases "even b")
       (simp_all add: par channel_of_def asg [OF shp])
qed

text \<open>
  The four pixels of an offset \<open>(a, b)\<close> from the centre, one in each quadrant, in the
  order in which \<^verbatim>\<open>calc_synthetic_flat\<close> writes them.
\<close>

definition pix :: "nat \<Rightarrow> nat \<Rightarrow> bool \<Rightarrow> bool \<Rightarrow> nat \<Rightarrow> nat \<Rightarrow> nat list" where
  "pix hh hw s t a b = [if s then hh + a else hh - 1 - a, if t then hw + b else hw - 1 - b]"

definition quad :: "nat \<Rightarrow> nat \<Rightarrow> nat \<Rightarrow> nat \<Rightarrow> nat list list" where
  "quad hh hw a b =
     [pix hh hw True True a b, pix hh hw True False a b,
      pix hh hw False True a b, pix hh hw False False a b]"

text \<open>The multiples \<open>k\<close> that an offset \<open>(x, y)\<close> writes: those before the \<^verbatim>\<open>break\<close>.\<close>

definition multiples :: "nat \<Rightarrow> nat \<Rightarrow> nat \<Rightarrow> nat \<Rightarrow> nat list \<Rightarrow> nat list" where
  "multiples hh hw x y ks = takeWhile (\<lambda>k. x * k < hh \<and> y * k < hw) ks"

text \<open>A planned write: the pixel, and the offset \<open>(x, y)\<close> and multiple \<open>k\<close> it comes from.\<close>

type_synonym planned = "nat list \<times> nat \<times> nat \<times> nat"

definition planned_writes :: "nat \<Rightarrow> nat \<Rightarrow> nat \<Rightarrow> nat \<Rightarrow> nat list \<Rightarrow> planned list" where
  "planned_writes hh hw x y ks =
     concat (map (\<lambda>k. map (\<lambda>q. (q, x, y, k)) (quad hh hw (x * k) (y * k)))
               (multiples hh hw x y ks))"

definition plan_step :: "nat \<Rightarrow> nat \<Rightarrow> planned list \<Rightarrow> nat \<times> nat \<Rightarrow> planned list" where
  "plan_step hh hw pl p =
     (if [hh + fst p, hw + snd p] \<in> set (map fst pl) then pl
      else pl @ planned_writes hh hw (fst p) (snd p) [1..<hh])"

definition plan_of :: "nat \<Rightarrow> nat \<Rightarrow> (nat \<times> nat) list \<Rightarrow> planned list" where
  "plan_of hh hw ps = foldl (plan_step hh hw) [] ps"

definition radial_index :: "nat \<Rightarrow> nat \<Rightarrow> nat \<Rightarrow> nat \<Rightarrow> int" where
  "radial_index height width x y =
     py_int (real (RADIAL_RESOLUTION - 1)
             * (dist_from_center (int (height div 2 + x)) (int (width div 2 + y)) (int height) (int width)
                / dist_from_center 0 0 (int height) (int width)))"

definition planned_value :: "float64 ndarray \<Rightarrow> bool \<Rightarrow> nat \<Rightarrow> nat \<Rightarrow> planned \<Rightarrow> nat list \<times> float64" where
  "planned_value rad_profile grey_flat height width w =
     (case w of (q, x, y, k) \<Rightarrow>
        (q, item rad_profile [nat (radial_index height width x y * int k), channel_of grey_flat q]))"

text \<open>The image holds at every index the value of the last write to it, or zero.\<close>

definition history_ok :: "flat_state \<Rightarrow> bool" where
  "history_ok st =
     (\<forall>idx. item (im_syn st) idx
              = (case map_of (rev (written st)) idx of None \<Rightarrow> Finite 0 | Some v \<Rightarrow> v))"

lemma history_ok_put: "history_ok st \<Longrightarrow> history_ok (put st idx v)"
  by (simp add: history_ok_def)

lemma getitem_row:
  assumes "getitem a [r, int c] = Inr v" and "0 \<le> r"
  shows "v = item a [nat r, c] \<and> nat r < shape a ! 0"
proof -
  from assms(1) obtain k where k: "resolve_index (shape a) [r, int c] = Inr k" and v: "v = item a k"
    by (auto simp: getitem_def pbind_eq_Inr)
  have "\<exists>n m. shape a = [n, m]"
  proof (cases "shape a")
    case Nil
    with k show ?thesis by simp
  next
    case (Cons n ns)
    note c1 = this
    show ?thesis
    proof (cases ns)
      case Nil
      with k c1 show ?thesis by (simp add: pbind_eq_Inr)
    next
      case (Cons m ms)
      with k c1 show ?thesis by (cases ms) (simp_all add: pbind_eq_Inr)
    qed
  qed
  then obtain n m where shp: "shape a = [n, m]" by blast
  from k assms(2) have "k = [nat r, c] \<and> nat r < n"
    by (auto simp: shp pbind_eq_Inr np_index_def split: if_splits)
  with v shp show ?thesis by simp
qed

lemma getitem_row_total:
  assumes "shape a = [n, m]" "0 \<le> r" "r < int n" "c < m"
  shows "getitem a [r, int c] = Inr (item a [nat r, c])"
  using assms by (simp add: getitem_def np_index_def)

lemma coords:
  "py_int (real hh - 1 / 2 + (real n + 1 / 2)) = int (hh + n)"
  "n < hh \<Longrightarrow> py_int (real hh - 1 / 2 - (real n + 1 / 2)) = int (hh - 1 - n)"
proof -
  have "real hh - 1 / 2 + (real n + 1 / 2) = real (hh + n)" by simp
  then show "py_int (real hh - 1 / 2 + (real n + 1 / 2)) = int (hh + n)"
    by (simp only: py_int_of_nat)
  assume "n < hh"
  then have "real hh - 1 / 2 - (real n + 1 / 2) = real (hh - 1 - n)"
    by (simp add: of_nat_diff)
  then show "py_int (real hh - 1 / 2 - (real n + 1 / 2)) = int (hh - 1 - n)"
    by (simp only: py_int_of_nat)
qed

lemma cond_nat: "real n < real hh - 1 / 2 \<longleftrightarrow> n < hh"
  by (auto simp: less_diff_eq)

definition annotate :: "float64 ndarray \<Rightarrow> bool \<Rightarrow> int \<Rightarrow> planned \<Rightarrow> nat list \<times> float64" where
  "annotate rad_profile grey_flat r w =
     (case w of (q, x, y, k) \<Rightarrow> (q, item rad_profile [nat (r * int k), channel_of grey_flat q]))"

lemma write_flat_pixel_quad:
  assumes shp: "shape (im_syn st) = [height, width]"
      and fit: "2 * hh \<le> height" "2 * hw \<le> width"
      and ab: "a < hh" "b < hw"
  shows "write_flat_pixel st rad_profile grey_flat r
           (if s then real hh - 1 / 2 + (real a + 1 / 2) else real hh - 1 / 2 - (real a + 1 / 2))
           (if t then real hw - 1 / 2 + (real b + 1 / 2) else real hw - 1 / 2 - (real b + 1 / 2))
       = pbind (getitem rad_profile [r, int (channel_of grey_flat (pix hh hw s t a b))])
           (\<lambda>v. Inr (put st (pix hh hw s t a b) v))"
proof -
  let ?i = "if s then hh + a else hh - 1 - a" and ?j = "if t then hw + b else hw - 1 - b"
  have rng: "?i < height" "?j < width" using fit ab by auto
  have ci: "py_int (if s then real hh - 1 / 2 + (real a + 1 / 2) else real hh - 1 / 2 - (real a + 1 / 2))
      = int ?i"
  proof (cases s)
    case True
    then show ?thesis by (simp only: if_True coords(1))
  next
    case False
    then show ?thesis using coords(2) [OF ab(1)] by (simp only: if_False)
  qed
  have cj: "py_int (if t then real hw - 1 / 2 + (real b + 1 / 2) else real hw - 1 / 2 - (real b + 1 / 2))
      = int ?j"
  proof (cases t)
    case True
    then show ?thesis by (simp only: if_True coords(1))
  next
    case False
    then show ?thesis using coords(2) [OF ab(2)] by (simp only: if_False)
  qed
  have "pix hh hw s t a b = [?i, ?j]" by (simp add: pix_def)
  then show ?thesis
    by (simp only: write_flat_pixel_nat [OF shp rng ci cj])
qed

lemma one_write:
  assumes shp: "shape (im_syn st) = [height, width]"
      and fit: "2 * hh \<le> height" "2 * hw \<le> width"
      and ab: "a < hh" "b < hw" and r: "0 \<le> r"
      and run: "write_flat_pixel st rad_profile grey_flat r
                  (if s then real hh - 1 / 2 + (real a + 1 / 2) else real hh - 1 / 2 - (real a + 1 / 2))
                  (if t then real hw - 1 / 2 + (real b + 1 / 2) else real hw - 1 / 2 - (real b + 1 / 2))
                = Inr st1"
  shows "st1 = put st (pix hh hw s t a b)
                 (item rad_profile [nat r, channel_of grey_flat (pix hh hw s t a b)])
       \<and> nat r < shape rad_profile ! 0"
proof -
  from run obtain v where
    g: "getitem rad_profile [r, int (channel_of grey_flat (pix hh hw s t a b))] = Inr v"
    and s1: "st1 = put st (pix hh hw s t a b) v"
    by (auto simp: write_flat_pixel_quad [OF shp fit ab] pbind_eq_Inr)
  from getitem_row [OF g r] s1 show ?thesis
    by simp
qed

lemma channel_of_range: "channel_of grey_flat q \<in> {1, 2, 3}"
  by (simp add: channel_of_def)

lemma one_write_total:
  assumes shp: "shape (im_syn st) = [height, width]"
      and fit: "2 * hh \<le> height" "2 * hw \<le> width"
      and ab: "a < hh" "b < hw" and r: "0 \<le> r" "r < int n"
      and prof: "shape rad_profile = [n, 4]"
  shows "write_flat_pixel st rad_profile grey_flat r
           (if s then real hh - 1 / 2 + (real a + 1 / 2) else real hh - 1 / 2 - (real a + 1 / 2))
           (if t then real hw - 1 / 2 + (real b + 1 / 2) else real hw - 1 / 2 - (real b + 1 / 2))
       = Inr (put st (pix hh hw s t a b)
                (item rad_profile [nat r, channel_of grey_flat (pix hh hw s t a b)]))"
proof -
  have "channel_of grey_flat (pix hh hw s t a b) < 4"
    using channel_of_range [of grey_flat "pix hh hw s t a b"] by auto
  from getitem_row_total [OF prof r this] show ?thesis
    by (simp add: write_flat_pixel_quad [OF shp fit ab])
qed

lemma write_multiples_Cons:
  "write_multiples rad_profile grey_flat (real hh - 1 / 2) (real hw - 1 / 2) x y r (k # ks) st =
     (if x * k < hh \<and> y * k < hw then
        pbind (write_flat_pixel st rad_profile grey_flat (r * int k)
                 (real hh - 1 / 2 + (real (x * k) + 1 / 2)) (real hw - 1 / 2 + (real (y * k) + 1 / 2))) (\<lambda>st1.
        pbind (write_flat_pixel st1 rad_profile grey_flat (r * int k)
                 (real hh - 1 / 2 + (real (x * k) + 1 / 2)) (real hw - 1 / 2 - (real (y * k) + 1 / 2))) (\<lambda>st2.
        pbind (write_flat_pixel st2 rad_profile grey_flat (r * int k)
                 (real hh - 1 / 2 - (real (x * k) + 1 / 2)) (real hw - 1 / 2 + (real (y * k) + 1 / 2))) (\<lambda>st3.
        pbind (write_flat_pixel st3 rad_profile grey_flat (r * int k)
                 (real hh - 1 / 2 - (real (x * k) + 1 / 2)) (real hw - 1 / 2 - (real (y * k) + 1 / 2)))
          (write_multiples rad_profile grey_flat (real hh - 1 / 2) (real hw - 1 / 2) x y r ks))))
      else Inr st)"
  by (simp only: write_multiples.simps cond_nat Let_def)

lemma write_multiples_plan:
  assumes shp: "shape (im_syn st) = [height, width]"
      and fit: "2 * hh \<le> height" "2 * hw \<le> width"
      and r: "0 \<le> r"
      and run: "write_multiples rad_profile grey_flat (real hh - 1 / 2) (real hw - 1 / 2) x y r ks st
                  = Inr st'"
  shows "written st' = written st @ map (annotate rad_profile grey_flat r) (planned_writes hh hw x y ks)
       \<and> shape (im_syn st') = [height, width]
       \<and> (history_ok st \<longrightarrow> history_ok st')
       \<and> (\<forall>k \<in> set (multiples hh hw x y ks). nat (r * int k) < shape rad_profile ! 0)"
  using shp run
proof (induction ks arbitrary: st)
  case Nil
  then show ?case by (simp add: planned_writes_def multiples_def)
next
  case (Cons k ks)
  show ?case
  proof (cases "x * k < hh \<and> y * k < hw")
    case False
    have "write_multiples rad_profile grey_flat (real hh - 1 / 2) (real hw - 1 / 2) x y r (k # ks) st
        = Inr st"
      by (subst write_multiples_Cons) (simp only: False if_False)
    with Cons.prems(2) have same: "st' = st"
      by simp
    have mult: "multiples hh hw x y (k # ks) = []"
      using False by (simp add: multiples_def)
    show ?thesis
      using Cons.prems(1) by (simp add: same planned_writes_def mult)
  next
    case True
    let ?a = "x * k" and ?b = "y * k"
    let ?rk = "r * int k"
    have rk: "0 \<le> ?rk" using r by simp
    have "write_multiples rad_profile grey_flat (real hh - 1 / 2) (real hw - 1 / 2) x y r (k # ks) st
        = pbind (write_flat_pixel st rad_profile grey_flat (r * int k)
                 (real hh - 1 / 2 + (real (x * k) + 1 / 2)) (real hw - 1 / 2 + (real (y * k) + 1 / 2))) (\<lambda>st1.
        pbind (write_flat_pixel st1 rad_profile grey_flat (r * int k)
                 (real hh - 1 / 2 + (real (x * k) + 1 / 2)) (real hw - 1 / 2 - (real (y * k) + 1 / 2))) (\<lambda>st2.
        pbind (write_flat_pixel st2 rad_profile grey_flat (r * int k)
                 (real hh - 1 / 2 - (real (x * k) + 1 / 2)) (real hw - 1 / 2 + (real (y * k) + 1 / 2))) (\<lambda>st3.
        pbind (write_flat_pixel st3 rad_profile grey_flat (r * int k)
                 (real hh - 1 / 2 - (real (x * k) + 1 / 2)) (real hw - 1 / 2 - (real (y * k) + 1 / 2)))
          (write_multiples rad_profile grey_flat (real hh - 1 / 2) (real hw - 1 / 2) x y r ks))))"
      by (subst write_multiples_Cons) (simp only: True if_True simp_thms)
    with Cons.prems(2) obtain s1 s2 s3 s4 where
      w1: "write_flat_pixel st rad_profile grey_flat ?rk
             (real hh - 1 / 2 + (real ?a + 1 / 2)) (real hw - 1 / 2 + (real ?b + 1 / 2)) = Inr s1"
      and w2: "write_flat_pixel s1 rad_profile grey_flat ?rk
             (real hh - 1 / 2 + (real ?a + 1 / 2)) (real hw - 1 / 2 - (real ?b + 1 / 2)) = Inr s2"
      and w3: "write_flat_pixel s2 rad_profile grey_flat ?rk
             (real hh - 1 / 2 - (real ?a + 1 / 2)) (real hw - 1 / 2 + (real ?b + 1 / 2)) = Inr s3"
      and w4: "write_flat_pixel s3 rad_profile grey_flat ?rk
             (real hh - 1 / 2 - (real ?a + 1 / 2)) (real hw - 1 / 2 - (real ?b + 1 / 2)) = Inr s4"
      and rest: "write_multiples rad_profile grey_flat (real hh - 1 / 2) (real hw - 1 / 2) x y r ks s4
                  = Inr st'"
      by (simp only: pbind_eq_Inr) blast
    let ?v = "\<lambda>q. item rad_profile [nat ?rk, channel_of grey_flat q]"
    have ab: "?a < hh" "?b < hw" using True by auto
    have inrange: "nat ?rk < shape rad_profile ! 0"
      using one_write [OF Cons.prems(1) fit ab rk, of rad_profile grey_flat True True s1] w1 by simp
    have e1: "s1 = put st (pix hh hw True True ?a ?b) (?v (pix hh hw True True ?a ?b))"
      using one_write [OF Cons.prems(1) fit ab rk, of rad_profile grey_flat True True s1] w1 by simp
    have sh1: "shape (im_syn s1) = [height, width]" using e1 Cons.prems(1) by simp
    have e2: "s2 = put s1 (pix hh hw True False ?a ?b) (?v (pix hh hw True False ?a ?b))"
      using one_write [OF sh1 fit ab rk, of rad_profile grey_flat True False s2] w2 by simp
    have sh2: "shape (im_syn s2) = [height, width]" using e2 sh1 by simp
    have e3: "s3 = put s2 (pix hh hw False True ?a ?b) (?v (pix hh hw False True ?a ?b))"
      using one_write [OF sh2 fit ab rk, of rad_profile grey_flat False True s3] w3 by simp
    have sh3: "shape (im_syn s3) = [height, width]" using e3 sh2 by simp
    have e4: "s4 = put s3 (pix hh hw False False ?a ?b) (?v (pix hh hw False False ?a ?b))"
      using one_write [OF sh3 fit ab rk, of rad_profile grey_flat False False s4] w4 by simp
    have sh4: "shape (im_syn s4) = [height, width]" using e4 sh3 by simp
    have w: "written s4 = written st
        @ map (annotate rad_profile grey_flat r) (map (\<lambda>q. (q, x, y, k)) (quad hh hw ?a ?b))"
      by (simp add: e1 e2 e3 e4 quad_def annotate_def)
    have h: "history_ok st \<longrightarrow> history_ok s4"
      by (simp add: e1 e2 e3 e4 history_ok_put)
    have pw: "planned_writes hh hw x y (k # ks)
        = map (\<lambda>q. (q, x, y, k)) (quad hh hw ?a ?b) @ planned_writes hh hw x y ks"
      using True by (simp add: planned_writes_def multiples_def)
    have mult: "multiples hh hw x y (k # ks) = k # multiples hh hw x y ks"
      using True by (simp add: multiples_def)
    from Cons.IH [OF sh4 rest] w h inrange show ?thesis
      by (simp add: pw mult)
  qed
qed

lemma py_int_nonneg_ge: "0 \<le> x \<Longrightarrow> 0 \<le> py_int x"
  by (simp add: py_int_def)

lemma dist_from_center_nonneg: "0 \<le> dist_from_center i j h w"
  by (simp add: dist_from_center_def cached_dist_def Let_def)

lemma radial_index_nonneg: "0 \<le> radial_index height width x y"
  unfolding radial_index_def
  by (intro py_int_nonneg_ge mult_nonneg_nonneg divide_nonneg_nonneg dist_from_center_nonneg) simp

lemma getitem2_nat:
  "shape a = [H, W] \<Longrightarrow> i < H \<Longrightarrow> j < W \<Longrightarrow> getitem a [int i, int j] = Inr (item a [i, j])"
  by (simp add: getitem_def)

text \<open>One offset: either skipped as a whole, or all its multiples are written.\<close>

lemma flat_offset_cases:
  assumes shp: "shape (im_syn st) = [height, width]"
      and xy: "x < height div 2" "y < width div 2"
      and mr: "0 \<le> maxrad"
      and run: "flat_offset rad_profile grey_flat height width (height div 2) (width div 2)
                  maxrad x y st = Inr st'"
  shows "shape (im_syn st') = [height, width] \<and> (history_ok st \<longrightarrow> history_ok st')
       \<and> (if item (im_syn st) [height div 2 + x, width div 2 + y] \<noteq> Finite 0 then st' = st
           else written st' = written st
                  @ map (annotate rad_profile grey_flat
                           (py_int (real (RADIAL_RESOLUTION - 1)
                              * (dist_from_center (int (height div 2 + x)) (int (width div 2 + y))
                                   (int height) (int width) / maxrad))))
                      (planned_writes (height div 2) (width div 2) x y [1..<height div 2])
              \<and> (\<forall>k \<in> set (multiples (height div 2) (width div 2) x y [1..<height div 2]).
                     nat (py_int (real (RADIAL_RESOLUTION - 1)
                              * (dist_from_center (int (height div 2 + x)) (int (width div 2 + y))
                                   (int height) (int width) / maxrad)) * int k)
                       < shape rad_profile ! 0))"
proof -
  let ?hh = "height div 2" and ?hw = "width div 2"
  have rng: "?hh + x < height" "?hw + y < width" using xy by auto
  have base: "getitem (im_syn st) [int (?hh + x), int (?hw + y)]
      = Inr (item (im_syn st) [?hh + x, ?hw + y])"
    by (rule getitem2_nat [OF shp rng])
  show ?thesis
  proof (cases "item (im_syn st) [?hh + x, ?hw + y] \<noteq> Finite 0")
    case True
    then have "st' = st"
      using run by (simp add: flat_offset_def Let_def base del: of_nat_add)
    with True shp show ?thesis by simp
  next
    case False
    let ?r = "py_int (real (RADIAL_RESOLUTION - 1)
                 * (dist_from_center (int (?hh + x)) (int (?hw + y)) (int height) (int width) / maxrad))"
    from False run have mz: "maxrad \<noteq> 0"
      by (auto simp: flat_offset_def Let_def base simp del: of_nat_add)
    with False run have wm:
      "write_multiples rad_profile grey_flat (real ?hh - 1 / 2) (real ?hw - 1 / 2) x y ?r
         [1..<?hh] st = Inr st'"
      by (simp add: flat_offset_def Let_def base del: of_nat_add)
    have fit: "2 * ?hh \<le> height" "2 * ?hw \<le> width" by simp_all
    have nonneg: "0 \<le> ?r"
      using mr
      by (intro py_int_nonneg_ge mult_nonneg_nonneg divide_nonneg_nonneg dist_from_center_nonneg)
         simp_all
    from write_multiples_plan [OF shp fit nonneg wm] False show ?thesis by simp
  qed
qed

text \<open>The same, as the loop of \<^verbatim>\<open>calc_synthetic_flat\<close> calls it.\<close>

lemma flat_offset_keeps:
  assumes "shape (im_syn st) = [height, width]" "x < height div 2" "y < width div 2"
      and "flat_offset rad_profile grey_flat height width (height div 2) (width div 2)
             (dist_from_center 0 0 (int height) (int width)) x y st = Inr st'"
  shows "shape (im_syn st') = [height, width]" and "history_ok st \<Longrightarrow> history_ok st'"
  using flat_offset_cases [OF assms(1-3) dist_from_center_nonneg assms(4)] by blast+

lemma flat_offset_skip:
  assumes "shape (im_syn st) = [height, width]" "x < height div 2" "y < width div 2"
      and "flat_offset rad_profile grey_flat height width (height div 2) (width div 2)
             (dist_from_center 0 0 (int height) (int width)) x y st = Inr st'"
      and nz: "item (im_syn st) [height div 2 + x, width div 2 + y] \<noteq> Finite 0"
  shows "st' = st"
proof -
  note c = flat_offset_cases [OF assms(1-3) dist_from_center_nonneg assms(4)]
  from c have "if item (im_syn st) [height div 2 + x, width div 2 + y] \<noteq> Finite 0 then st' = st else True"
    by (simp split: if_splits)
  with nz show ?thesis by simp
qed

lemma flat_offset_write:
  assumes "shape (im_syn st) = [height, width]" "x < height div 2" "y < width div 2"
      and "flat_offset rad_profile grey_flat height width (height div 2) (width div 2)
             (dist_from_center 0 0 (int height) (int width)) x y st = Inr st'"
      and z: "item (im_syn st) [height div 2 + x, width div 2 + y] = Finite 0"
  shows "written st' = written st
           @ map (annotate rad_profile grey_flat (radial_index height width x y))
               (planned_writes (height div 2) (width div 2) x y [1..<height div 2])"
    and "\<forall>k \<in> set (multiples (height div 2) (width div 2) x y [1..<height div 2]).
           nat (radial_index height width x y * int k) < shape rad_profile ! 0"
proof -
  note c = flat_offset_cases [OF assms(1-3) dist_from_center_nonneg assms(4)]
  from z have nz: "\<not> item (im_syn st) [height div 2 + x, width div 2 + y] \<noteq> Finite 0" by simp
  from c have "written st' = written st
           @ map (annotate rad_profile grey_flat (radial_index height width x y))
               (planned_writes (height div 2) (width div 2) x y [1..<height div 2])
      \<and> (\<forall>k \<in> set (multiples (height div 2) (width div 2) x y [1..<height div 2]).
           nat (radial_index height width x y * int k) < shape rad_profile ! 0)"
    unfolding radial_index_def using z by simp
  then show "written st' = written st
           @ map (annotate rad_profile grey_flat (radial_index height width x y))
               (planned_writes (height div 2) (width div 2) x y [1..<height div 2])"
    and "\<forall>k \<in> set (multiples (height div 2) (width div 2) x y [1..<height div 2]).
           nat (radial_index height width x y * int k) < shape rad_profile ! 0"
    by blast+
qed

section \<open>The profile index stays in range\<close>

lemma py_int_half: "py_int (real n / 2) = int (n div 2)"
proof -
  have "\<lfloor>real n / real 2\<rfloor> = int (n div 2)"
    by (rule floor_divide_of_nat_eq)
  then show ?thesis by (simp add: py_int_def)
qed

lemma dist_from_center_sqrt:
  "dist_from_center i j h w
     = sqrt ((real_of_int (py_int \<bar>real_of_int i - real_of_int h / 2\<bar>))\<^sup>2
           + (real_of_int (py_int \<bar>real_of_int j - real_of_int w / 2\<bar>))\<^sup>2)"
  by (simp add: dist_from_center_def cached_dist_def Let_def add.commute)

lemma maxrad_sqrt:
  "dist_from_center 0 0 (int height) (int width)
     = sqrt ((real (height div 2))\<^sup>2 + (real (width div 2))\<^sup>2)"
  by (simp add: dist_from_center_sqrt py_int_half)

lemma half_bounds: "real (n div 2) \<le> real n / 2" "real n / 2 \<le> real (n div 2) + 1 / 2"
proof -
  have "2 * (n div 2) \<le> n" "n \<le> 2 * (n div 2) + 1" by arith+
  then have "real (2 * (n div 2)) \<le> real n" "real n \<le> real (2 * (n div 2) + 1)"
    by (simp_all only: of_nat_le_iff)
  then show "real (n div 2) \<le> real n / 2" "real n / 2 \<le> real (n div 2) + 1 / 2"
    by simp_all
qed

lemma offset_distance:
  "0 \<le> py_int \<bar>real_of_int (int (n div 2 + x)) - real_of_int (int n) / 2\<bar>"
  "py_int \<bar>real_of_int (int (n div 2 + x)) - real_of_int (int n) / 2\<bar> \<le> int x"
proof -
  let ?v = "\<bar>real_of_int (int (n div 2 + x)) - real_of_int (int n) / 2\<bar>"
  have v: "0 \<le> ?v" by simp
  then show "0 \<le> py_int ?v" by (rule py_int_nonneg_ge)
  have "?v < real x + 1"
    using half_bounds [of n] by (simp add: abs_less_iff)
  then have "?v < real_of_int (int x + 1)"
    by simp
  then have "\<lfloor>?v\<rfloor> < int x + 1"
    by (simp only: floor_less_iff)
  then show "py_int ?v \<le> int x"
    using v by (simp add: py_int_nonneg)
qed

lemma radial_index_times:
  assumes xk: "x * k < height div 2" and yk: "y * k < width div 2"
  shows "0 \<le> radial_index height width x y * int k"
    and "radial_index height width x y * int k < int RADIAL_RESOLUTION"
proof -
  let ?hh = "height div 2" and ?hw = "width div 2"
  define dx where "dx = py_int \<bar>real_of_int (int (?hh + x)) - real_of_int (int height) / 2\<bar>"
  define dy where "dy = py_int \<bar>real_of_int (int (?hw + y)) - real_of_int (int width) / 2\<bar>"
  define D where "D = sqrt ((real_of_int dx)\<^sup>2 + (real_of_int dy)\<^sup>2)"
  define M where "M = sqrt ((real ?hh)\<^sup>2 + (real ?hw)\<^sup>2)"
  define R where "R = py_int (real (RADIAL_RESOLUTION - 1) * (D / M))"
  have dx: "0 \<le> dx" "dx \<le> int x" unfolding dx_def by (rule offset_distance)+
  have dy: "0 \<le> dy" "dy \<le> int y" unfolding dy_def by (rule offset_distance)+
  have ri: "radial_index height width x y = R"
    unfolding radial_index_def maxrad_sqrt
    unfolding dist_from_center_sqrt R_def D_def M_def dx_def dy_def ..
  have "0 < ?hh" using xk by auto
  then have "0 < (real ?hh)\<^sup>2 + (real ?hw)\<^sup>2"
    by (intro add_pos_nonneg) simp_all
  then have M: "0 < M" by (simp add: M_def)
  have D: "0 \<le> D" by (simp add: D_def)
  have kx: "real k * real_of_int dx \<le> real ?hh"
  proof -
    have "real_of_int dx \<le> real x" using dx(2) by linarith
    then have "real k * real_of_int dx \<le> real k * real x"
      by (intro mult_left_mono) simp_all
    also have "\<dots> = real (x * k)" by simp
    also have "\<dots> \<le> real ?hh" using xk by (simp only: of_nat_le_iff)
    finally show ?thesis .
  qed
  have ky: "real k * real_of_int dy \<le> real ?hw"
  proof -
    have "real_of_int dy \<le> real y" using dy(2) by linarith
    then have "real k * real_of_int dy \<le> real k * real y"
      by (intro mult_left_mono) simp_all
    also have "\<dots> = real (y * k)" by simp
    also have "\<dots> \<le> real ?hw" using yk by (simp only: of_nat_le_iff)
    finally show ?thesis .
  qed
  have sq: "(real k * real_of_int dx)\<^sup>2 \<le> (real ?hh)\<^sup>2"
    "(real k * real_of_int dy)\<^sup>2 \<le> (real ?hw)\<^sup>2"
    using kx ky dx(1) dy(1) by (auto intro!: power_mono mult_nonneg_nonneg)
  have "real k * D = sqrt ((real k * real_of_int dx)\<^sup>2 + (real k * real_of_int dy)\<^sup>2)"
    by (simp add: D_def power_mult_distrib real_sqrt_mult flip: distrib_left)
  also have "\<dots> \<le> M"
    unfolding M_def using sq by (intro real_sqrt_le_mono add_mono)
  finally have kD: "real k * D \<le> M" .
  then have frac: "real k * (D / M) \<le> 1"
    using M by (simp add: field_simps)
  have nonneg: "0 \<le> real (RADIAL_RESOLUTION - 1) * (D / M)"
    using D M by (intro mult_nonneg_nonneg divide_nonneg_nonneg) simp_all
  then have R0: "0 \<le> R" unfolding R_def by (rule py_int_nonneg_ge)
  have "real_of_int R \<le> real (RADIAL_RESOLUTION - 1) * (D / M)"
    unfolding R_def using nonneg by (simp add: py_int_nonneg)
  then have "real_of_int R * real k \<le> real (RADIAL_RESOLUTION - 1) * (D / M) * real k"
    by (intro mult_right_mono) simp_all
  also have "\<dots> = real (RADIAL_RESOLUTION - 1) * (real k * (D / M))" by simp
  also have "\<dots> \<le> real (RADIAL_RESOLUTION - 1) * 1"
    using frac by (intro mult_left_mono) simp_all
  finally have "real_of_int (R * int k) \<le> real_of_int (int (RADIAL_RESOLUTION - 1))"
    by simp
  then have "R * int k \<le> int (RADIAL_RESOLUTION - 1)"
    by (simp only: of_int_le_iff)
  then show "radial_index height width x y * int k < int RADIAL_RESOLUTION"
    unfolding ri by (simp add: RADIAL_RESOLUTION_def)
  show "0 \<le> radial_index height width x y * int k"
    unfolding ri using R0 by simp
qed

section \<open>The iteration returns\<close>

lemma for_each_total:
  assumes "P s"
      and "\<And>x t. x \<in> set xs \<Longrightarrow> P t \<Longrightarrow> \<exists>t'. f x t = Inr t' \<and> P t'"
  shows "\<exists>s'. for_each f xs s = Inr s' \<and> P s'"
  using assms
proof (induction xs arbitrary: s)
  case Nil
  then show ?case by simp
next
  case (Cons x xs)
  from Cons.prems obtain t where t: "f x s = Inr t" "P t" by auto
  from Cons.IH [OF t(2)] Cons.prems(2) obtain s' where "for_each f xs t = Inr s'" "P s'"
    by auto
  with t show ?case by simp
qed

lemma write_multiples_total:
  assumes shp: "shape (im_syn st) = [height, width]"
      and fit: "2 * hh \<le> height" "2 * hw \<le> width"
      and prof: "shape rad_profile = [n, 4]"
      and rng: "\<forall>k \<in> set ks. x * k < hh \<and> y * k < hw \<longrightarrow> 0 \<le> r * int k \<and> r * int k < int n"
  shows "\<exists>st'. write_multiples rad_profile grey_flat (real hh - 1 / 2) (real hw - 1 / 2) x y r ks st
                 = Inr st'"
  using shp rng
proof (induction ks arbitrary: st)
  case Nil
  then show ?case by simp
next
  case (Cons k ks)
  show ?case
  proof (cases "x * k < hh \<and> y * k < hw")
    case False
    show ?thesis
      by (subst write_multiples_Cons) (simp only: False if_False simp_thms, blast)
  next
    case True
    let ?a = "x * k" and ?b = "y * k"
    let ?rk = "r * int k"
    let ?v = "\<lambda>q. item rad_profile [nat ?rk, channel_of grey_flat q]"
    have ab: "?a < hh" "?b < hw" using True by auto
    have rk: "0 \<le> ?rk" "?rk < int n" using Cons.prems(2) True by auto
    define s1 where "s1 = put st (pix hh hw True True ?a ?b) (?v (pix hh hw True True ?a ?b))"
    define s2 where "s2 = put s1 (pix hh hw True False ?a ?b) (?v (pix hh hw True False ?a ?b))"
    define s3 where "s3 = put s2 (pix hh hw False True ?a ?b) (?v (pix hh hw False True ?a ?b))"
    define s4 where "s4 = put s3 (pix hh hw False False ?a ?b) (?v (pix hh hw False False ?a ?b))"
    have sh1: "shape (im_syn s1) = [height, width]" using Cons.prems(1) by (simp add: s1_def)
    have sh2: "shape (im_syn s2) = [height, width]" using sh1 by (simp add: s2_def)
    have sh3: "shape (im_syn s3) = [height, width]" using sh2 by (simp add: s3_def)
    have sh4: "shape (im_syn s4) = [height, width]" using sh3 by (simp add: s4_def)
    have w1: "write_flat_pixel st rad_profile grey_flat ?rk
             (real hh - 1 / 2 + (real ?a + 1 / 2)) (real hw - 1 / 2 + (real ?b + 1 / 2)) = Inr s1"
      using one_write_total [OF Cons.prems(1) fit ab rk prof, of grey_flat True True]
      by (simp only: if_True s1_def)
    have w2: "write_flat_pixel s1 rad_profile grey_flat ?rk
             (real hh - 1 / 2 + (real ?a + 1 / 2)) (real hw - 1 / 2 - (real ?b + 1 / 2)) = Inr s2"
      using one_write_total [OF sh1 fit ab rk prof, of grey_flat True False]
      by (simp only: if_True if_False s2_def)
    have w3: "write_flat_pixel s2 rad_profile grey_flat ?rk
             (real hh - 1 / 2 - (real ?a + 1 / 2)) (real hw - 1 / 2 + (real ?b + 1 / 2)) = Inr s3"
      using one_write_total [OF sh2 fit ab rk prof, of grey_flat False True]
      by (simp only: if_True if_False s3_def)
    have w4: "write_flat_pixel s3 rad_profile grey_flat ?rk
             (real hh - 1 / 2 - (real ?a + 1 / 2)) (real hw - 1 / 2 - (real ?b + 1 / 2)) = Inr s4"
      using one_write_total [OF sh3 fit ab rk prof, of grey_flat False False]
      by (simp only: if_False s4_def)
    have rest: "\<forall>k \<in> set ks. x * k < hh \<and> y * k < hw \<longrightarrow> 0 \<le> r * int k \<and> r * int k < int n"
      using Cons.prems(2) by simp
    from Cons.IH [OF sh4 rest] obtain st' where
      "write_multiples rad_profile grey_flat (real hh - 1 / 2) (real hw - 1 / 2) x y r ks s4 = Inr st'"
      by blast
    then show ?thesis
      by (subst write_multiples_Cons) (simp only: True if_True simp_thms w1 w2 w3 w4 pbind_Inr, blast)
  qed
qed

lemma maxrad_pos: "0 < height div 2 \<Longrightarrow> 0 < dist_from_center 0 0 (int height) (int width)"
proof -
  assume "0 < height div 2"
  then have "0 < (real (height div 2))\<^sup>2 + (real (width div 2))\<^sup>2"
    by (intro add_pos_nonneg) simp_all
  then show ?thesis by (simp add: maxrad_sqrt)
qed

lemma flat_offset_total:
  assumes shp: "shape (im_syn st) = [height, width]"
      and xy: "x < height div 2" "y < width div 2"
      and prof: "shape rad_profile = [RADIAL_RESOLUTION, 4]"
  shows "\<exists>st'. flat_offset rad_profile grey_flat height width (height div 2) (width div 2)
                  (dist_from_center 0 0 (int height) (int width)) x y st = Inr st'"
proof -
  let ?hh = "height div 2" and ?hw = "width div 2"
  have rng: "?hh + x < height" "?hw + y < width" using xy by auto
  have base: "getitem (im_syn st) [int (?hh + x), int (?hw + y)]
      = Inr (item (im_syn st) [?hh + x, ?hw + y])"
    by (rule getitem2_nat [OF shp rng])
  have mz: "dist_from_center 0 0 (int height) (int width) \<noteq> 0"
    using maxrad_pos [of height width] xy by simp
  have fit: "2 * ?hh \<le> height" "2 * ?hw \<le> width" by simp_all
  have idx: "\<forall>k \<in> set [1..<?hh]. x * k < ?hh \<and> y * k < ?hw
      \<longrightarrow> 0 \<le> radial_index height width x y * int k
        \<and> radial_index height width x y * int k < int RADIAL_RESOLUTION"
    using radial_index_times by blast
  from write_multiples_total [OF shp fit prof idx] obtain st' where
    "write_multiples rad_profile grey_flat (real ?hh - 1 / 2) (real ?hw - 1 / 2) x y
       (radial_index height width x y) [1..<?hh] st = Inr st'"
    by blast
  then show ?thesis
    by (simp add: flat_offset_def Let_def base mz radial_index_def del: of_nat_add)
qed

lemma flat_iteration_loop:
  "flat_iteration rad_profile grey_flat height width
     = for_each (\<lambda>p. flat_offset rad_profile grey_flat height width (height div 2) (width div 2)
                       (dist_from_center 0 0 (int height) (int width)) (fst p) (snd p))
         (List.product [0..<height div 2] [0..<width div 2])
         \<lparr>im_syn = np_zeros_float [height, width], written = []\<rparr>"
  by (simp only: flat_iteration_def Let_def half_nat for_each_product)

lemma flat_iteration_total:
  assumes prof: "shape rad_profile = [RADIAL_RESOLUTION, 4]"
  shows "\<exists>st. flat_iteration rad_profile grey_flat height width = Inr st"
proof -
  let ?P = "\<lambda>s. shape (im_syn s) = [height, width]"
  have "\<exists>s'. for_each (\<lambda>p. flat_offset rad_profile grey_flat height width (height div 2) (width div 2)
                       (dist_from_center 0 0 (int height) (int width)) (fst p) (snd p))
         (List.product [0..<height div 2] [0..<width div 2])
         \<lparr>im_syn = np_zeros_float [height, width], written = []\<rparr> = Inr s' \<and> ?P s'"
  proof (rule for_each_total [where P = ?P])
    show "?P \<lparr>im_syn = np_zeros_float [height, width], written = []\<rparr>"
      by (simp add: np_zeros_float_def)
  next
    fix p :: "nat \<times> nat" and t :: flat_state
    assume p: "p \<in> set (List.product [0..<height div 2] [0..<width div 2])" and t: "?P t"
    then have xy: "fst p < height div 2" "snd p < width div 2" by auto
    from flat_offset_total [OF t xy prof] obtain t' where
      run: "flat_offset rad_profile grey_flat height width (height div 2) (width div 2)
              (dist_from_center 0 0 (int height) (int width)) (fst p) (snd p) t = Inr t'"
      by blast
    from flat_offset_keeps(1) [OF t xy run] have "?P t'" .
    with run show "\<exists>t'. flat_offset rad_profile grey_flat height width (height div 2) (width div 2)
              (dist_from_center 0 0 (int height) (int width)) (fst p) (snd p) t = Inr t' \<and> ?P t'"
      by blast
  qed
  then show ?thesis by (auto simp: flat_iteration_loop)
qed

lemma flat_iteration_shape:
  assumes run: "flat_iteration rad_profile grey_flat height width = Inr st"
  shows "shape (im_syn st) = [height, width] \<and> history_ok st"
proof -
  let ?P = "\<lambda>s. shape (im_syn s) = [height, width] \<and> history_ok s"
  from run have loop: "for_each (\<lambda>p. flat_offset rad_profile grey_flat height width (height div 2)
                       (width div 2) (dist_from_center 0 0 (int height) (int width)) (fst p) (snd p))
         (List.product [0..<height div 2] [0..<width div 2])
         \<lparr>im_syn = np_zeros_float [height, width], written = []\<rparr> = Inr st"
    by (simp only: flat_iteration_loop)
  show ?thesis
  proof (rule for_each_Inr_induct [OF loop, where P = ?P])
    show "?P \<lparr>im_syn = np_zeros_float [height, width], written = []\<rparr>"
      by (simp add: np_zeros_float_def history_ok_def)
  next
    fix p :: "nat \<times> nat" and t t' :: flat_state
    assume p: "p \<in> set (List.product [0..<height div 2] [0..<width div 2])" and t: "?P t"
      and step: "flat_offset rad_profile grey_flat height width (height div 2)
                       (width div 2) (dist_from_center 0 0 (int height) (int width)) (fst p) (snd p) t
                  = Inr t'"
    from p have xy: "fst p < height div 2" "snd p < width div 2" by auto
    from t have shp: "shape (im_syn t) = [height, width]" by simp
    from flat_offset_keeps [OF shp xy step] t show "?P t'" by simp
  qed
qed

section \<open>The shape of the synthetic flat\<close>

lemma convert_16bit_shape: "convert_16bit overflow im = Inr out \<Longrightarrow> shape (pixels out) = shape im"
  by (auto simp: convert_16bit_def Let_def pbind_eq_Inr)

lemma sort_pair: "sort [h, w] = [min h w, max h (w::nat)]"
  by (simp add: min_def max_def)

lemma calc_synthetic_flat_shape:
  assumes "calc_synthetic_flat overflow rad_profile grey_flat (h, w) = Inr out"
  shows "shape (pixels out) = [min h w, max h w]"
proof -
  from assms obtain p st where
    it: "flat_iteration p grey_flat (min h w) (max h w) = Inr st"
    and out: "convert_16bit overflow (im_syn st) = Inr out"
    unfolding calc_synthetic_flat_def Let_def fst_conv snd_conv sort_pair
    by (auto simp: pbind_eq_Inr)
  from flat_iteration_shape [OF it] convert_16bit_shape [OF out] show ?thesis by simp
qed

text \<open>A profile that is 1 everywhere.\<close>

definition unit_profile :: "float64 ndarray" where
  "unit_profile = \<lparr>shape = [RADIAL_RESOLUTION, 4], item = (\<lambda>_. Finite 1)\<rparr>"

lemma np_max_float_ones:
  assumes "xs \<noteq> []" "set xs \<subseteq> {Finite 0, Finite 1}" "Finite 1 \<in> set xs"
  shows "np_max_float xs = Inr (Finite 1)"
proof (rule np_max_float_eqI)
  show "NaN \<notin> set xs" using assms(2) by auto
  show "Finite 1 \<in> set xs" by (rule assms(3))
  show "\<forall>x \<in> set xs. \<not> float_less (Finite 1) x" using assms(2) by auto
qed

lemma normalize_unit_column:
  assumes "c < 3"
  shows "normalize_column c unit_profile = Inr unit_profile"
proof -
  let ?xs = "map (\<lambda>r. Finite 1 :: float64) [0..<RADIAL_RESOLUTION]"
  have ne: "[0..<RADIAL_RESOLUTION] \<noteq> []" by (simp add: RADIAL_RESOLUTION_def)
  have "0 \<in> {0..<RADIAL_RESOLUTION}" by (simp add: RADIAL_RESOLUTION_def)
  then have s: "set ?xs = {Finite 1}"
    by auto
  have mx: "np_max_float ?xs = Inr (Finite 1)"
    using ne s by (intro np_max_float_ones) auto
  have col: "column unit_profile (c + 1) = Inr ?xs"
    using assms by (simp add: column_def unit_profile_def)
  have "np_max_column unit_profile (c + 1) = Inr (Finite 1)"
    by (simp only: np_max_column_def col pbind_Inr mx)
  moreover have "divide_column unit_profile (c + 1) (Finite 1) = Inr unit_profile"
    using assms by (auto simp: divide_column_def unit_profile_def)
  ultimately show ?thesis
    by (simp only: normalize_column_def pbind_Inr)
qed

lemma normalize_unit_profile: "for_each normalize_column [0..<3] unit_profile = Inr unit_profile"
  by (simp add: upt_3 normalize_unit_column)

lemma annotate_unit: "snd (annotate unit_profile grey_flat r w) = Finite 1"
  by (cases w) (simp add: annotate_def unit_profile_def)

lemma fst_annotate [simp]: "fst (annotate rad_profile grey_flat r w) = fst w"
  by (cases w) (simp add: annotate_def)

lemma centre_planned:
  assumes "2 \<le> hh" "0 < hw"
  shows "[hh, hw] \<in> fst ` set (planned_writes hh hw 0 0 [1..<hh])"
proof -
  have "[1..<hh] = 1 # [Suc 1..<hh]" using assms by (intro upt_conv_Cons) simp
  then have "multiples hh hw 0 0 [1..<hh] = 1 # multiples hh hw 0 0 [Suc 1..<hh]"
    using assms by (simp add: multiples_def)
  then show ?thesis
    by (simp add: planned_writes_def quad_def pix_def)
qed

text \<open>With the unit profile every write stores 1, and the pixel right below the centre is written.\<close>

lemma unit_flat_trace:
  assumes hh: "2 \<le> height div 2" and hw: "0 < width div 2"
      and run: "flat_iteration unit_profile grey_flat height width = Inr st"
  shows "history_ok st \<and> (\<forall>e \<in> set (written st). snd e = Finite 1)
       \<and> [height div 2, width div 2] \<in> fst ` set (written st)"
proof -
  let ?hh = "height div 2" and ?hw = "width div 2"
  let ?F = "\<lambda>p. flat_offset unit_profile grey_flat height width ?hh ?hw
                   (dist_from_center 0 0 (int height) (int width)) (fst p) (snd p)"
  let ?s0 = "\<lparr>im_syn = np_zeros_float [height, width], written = []\<rparr>"
  let ?Q = "\<lambda>s. shape (im_syn s) = [height, width] \<and> history_ok s
               \<and> (\<forall>e \<in> set (written s). snd e = Finite 1) \<and> [?hh, ?hw] \<in> fst ` set (written s)"
  have "[0..<?hh] = 0 # [Suc 0..<?hh]" "[0..<?hw] = 0 # [Suc 0..<?hw]"
    using hh hw by (simp_all add: upt_conv_Cons)
  then obtain rest where prod: "List.product [0..<?hh] [0..<?hw] = (0, 0) # rest"
    by simp
  have sub: "set rest \<subseteq> set (List.product [0..<?hh] [0..<?hw])"
    by (simp add: prod subset_insertI)
  from run have "for_each ?F ((0, 0) # rest) ?s0 = Inr st"
    by (simp only: flat_iteration_loop prod)
  then obtain s1 where first: "?F (0, 0) ?s0 = Inr s1" and loop: "for_each ?F rest s1 = Inr st"
    by (auto simp: pbind_eq_Inr)
  have shp0: "shape (im_syn ?s0) = [height, width]" by (simp add: np_zeros_float_def)
  have h0: "history_ok ?s0" by (simp add: history_ok_def np_zeros_float_def)
  have z0: "item (im_syn ?s0) [?hh + 0, ?hw + 0] = Finite 0" by (simp add: np_zeros_float_def)
  have xy0: "0 < ?hh" "0 < ?hw" using hh hw by auto
  from first have first': "flat_offset unit_profile grey_flat height width ?hh ?hw
      (dist_from_center 0 0 (int height) (int width)) 0 0 ?s0 = Inr s1"
    by simp
  have w1: "written s1 = map (annotate unit_profile grey_flat (radial_index height width 0 0))
                           (planned_writes ?hh ?hw 0 0 [1..<?hh])"
    using flat_offset_write(1) [OF shp0 xy0 first' z0] by simp
  have "[?hh, ?hw] \<in> fst ` set (written s1)"
    using centre_planned [OF hh hw] by (simp add: w1 image_image)
  moreover have "\<forall>e \<in> set (written s1). snd e = Finite 1"
    by (auto simp: w1 annotate_unit)
  ultimately have q1: "?Q s1"
    using flat_offset_keeps [OF shp0 xy0 first'] h0 by simp
  have "?Q st"
  proof (rule for_each_Inr_induct [OF loop, where P = ?Q])
    show "?Q s1" by (rule q1)
  next
    fix p :: "nat \<times> nat" and t t' :: flat_state
    assume p: "p \<in> set rest" and t: "?Q t" and step: "?F p t = Inr t'"
    from p sub have xy: "fst p < ?hh" "snd p < ?hw" by auto
    from t have shp: "shape (im_syn t) = [height, width]" by simp
    note keeps = flat_offset_keeps [OF shp xy step]
    show "?Q t'"
    proof (cases "item (im_syn t) [?hh + fst p, ?hw + snd p] = Finite 0")
      case False
      from flat_offset_skip [OF shp xy step False] t show ?thesis by simp
    next
      case True
      note w = flat_offset_write(1) [OF shp xy step True]
      have "\<forall>e \<in> set (written t'). snd e = Finite 1"
        using t by (auto simp: w annotate_unit)
      moreover have "[?hh, ?hw] \<in> fst ` set (written t')"
        using t by (simp add: w image_Un)
      ultimately show ?thesis using keeps t by simp
    qed
  qed
  then show ?thesis by simp
qed

lemma history_values:
  assumes "history_ok st" "\<forall>e \<in> set (written st). snd e = v"
  shows "item (im_syn st) idx = (if idx \<in> fst ` set (written st) then v else Finite 0)"
proof (cases "map_of (rev (written st)) idx")
  case None
  then have "idx \<notin> fst ` set (written st)"
    by (simp add: map_of_eq_None_iff)
  with None assms(1) show ?thesis by (simp add: history_ok_def)
next
  case (Some u)
  then have mem: "(idx, u) \<in> set (written st)"
    using map_of_SomeD by fastforce
  with assms(2) have "u = v" by auto
  moreover from mem have "idx \<in> fst ` set (written st)" by force
  ultimately show ?thesis using Some assms(1) by (simp add: history_ok_def)
qed

lemma convert_16bit_total:
  assumes shp: "shape im = [H, W]" and ij: "i < H" "j < W" and one: "item im [i, j] = Finite 1"
      and all: "\<forall>k. item im k = Finite 0 \<or> item im k = Finite 1"
  shows "\<exists>out. convert_16bit overflow im = Inr out"
proof -
  have mem: "item im [i, j] \<in> set (flatten2 im)"
    using ij by (auto simp: flatten2_def shp intro!: bexI [of _ i] image_eqI [of _ _ j])
  then have ne: "flatten2 im \<noteq> []" by auto
  have sub: "set (flatten2 im) \<subseteq> {Finite 0, Finite 1}"
    using all by (auto simp: flatten2_def)
  have mx: "np_max_float (flatten2 im) = Inr (Finite 1)"
    using ne sub mem one by (intro np_max_float_ones) simp_all
  let ?im1 = "im\<lparr>item := (\<lambda>k. float_div (item im k) (Finite 1))\<rparr>"
  have "float_div (item im [i, j]) (Finite 1) \<in> set (flatten2 ?im1)"
    using ij by (auto simp: flatten2_def shp intro!: bexI [of _ i] image_eqI [of _ _ j])
  then have "Finite 1 \<in> set (flatten2 ?im1)" by (simp add: one)
  then have "filter (float_less (Finite 0)) (flatten2 ?im1) \<noteq> []"
    by (auto simp: filter_empty_conv intro!: bexI [of _ "Finite 1"])
  then show ?thesis
    by (simp add: convert_16bit_def mx np_min_float_def Let_def)
qed

lemma unit_flat_returns:
  assumes "4 \<le> min h w" "2 \<le> max h w"
  shows "\<exists>out. calc_synthetic_flat overflow unit_profile grey_flat (h, w) = Inr out"
proof -
  let ?height = "min h w" and ?width = "max h w"
  have prof: "shape unit_profile = [RADIAL_RESOLUTION, 4]" by (simp add: unit_profile_def)
  from flat_iteration_total [OF prof] obtain st where
    it: "flat_iteration unit_profile grey_flat ?height ?width = Inr st" by blast
  have hh: "2 \<le> ?height div 2" and hw: "0 < ?width div 2" using assms by auto
  from unit_flat_trace [OF hh hw it] have tr: "history_ok st"
    "\<forall>e \<in> set (written st). snd e = Finite 1"
    "[?height div 2, ?width div 2] \<in> fst ` set (written st)"
    by simp_all
  note vals = history_values [OF tr(1,2)]
  have one: "item (im_syn st) [?height div 2, ?width div 2] = Finite 1"
    using tr(3) by (simp add: vals)
  have all: "\<forall>k. item (im_syn st) k = Finite 0 \<or> item (im_syn st) k = Finite 1"
    by (simp add: vals)
  have shp: "shape (im_syn st) = [?height, ?width]" using flat_iteration_shape [OF it] by simp
  have rng: "?height div 2 < ?height" "?width div 2 < ?width" using assms by auto
  from convert_16bit_total [OF shp rng one all] obtain out where
    "convert_16bit overflow (im_syn st) = Inr out"
    by blast
  then show ?thesis
    unfolding calc_synthetic_flat_def Let_def fst_conv snd_conv sort_pair
    by (simp add: normalize_unit_profile it)
qed

text \<open>
  C5 (amended).  Whenever \<^verbatim>\<open>calc_synthetic_flat\<close> returns for a requested size \<open>(h, w)\<close>, the
  array it returns is two-dimensional and its shape is the two requested lengths sorted
  ascending, \<open>(min h w, max h w)\<close>: the requested \<open>(h, w)\<close> when \<open>h \<le> w\<close>, and \<open>(w, h)\<close> when
  \<open>h > w\<close>.
\<close>

theorem synthetic_flat_shape_is_sorted:
  assumes "calc_synthetic_flat overflow rad_profile grey_flat (h, w) = Inr out"
  shows "shape (pixels out) = [min h w, max h w]"
  using assms by (rule calc_synthetic_flat_shape)

text \<open>A request of 6 rows and 4 columns is answered with 4 rows and 6 columns.\<close>

theorem synthetic_flat_shape_is_sorted_counterexample:
  "\<exists>out. calc_synthetic_flat (\<lambda>t v. Finite 0) unit_profile True (6, 4) = Inr out
         \<and> shape (pixels out) = [4, 6] \<and> shape (pixels out) \<noteq> [6, 4]"
proof -
  from unit_flat_returns [of 6 4 "\<lambda>t v. Finite 0" True] obtain out where
    out: "calc_synthetic_flat (\<lambda>t v. Finite 0) unit_profile True (6, 4) = Inr out" by auto
  from calc_synthetic_flat_shape [OF out] have "shape (pixels out) = [4, 6]" by simp
  with out show ?thesis by auto
qed

theorem synthetic_flat_shape_is_sorted_witness:
  "\<exists>out. calc_synthetic_flat (\<lambda>t v. Finite 0) unit_profile True (4, 6) = Inr out
         \<and> shape (pixels out) = [4, 6]"
proof -
  from unit_flat_returns [of 4 6 "\<lambda>t v. Finite 0" True] obtain out where
    out: "calc_synthetic_flat (\<lambda>t v. Finite 0) unit_profile True (4, 6) = Inr out" by auto
  from synthetic_flat_shape_is_sorted [OF out] have "shape (pixels out) = [4, 6]" by simp
  with out show ?thesis by auto
qed

end
